theory Spec2Isabelle
  imports Main
begin

section \<open>Python strings and the helpers the extension uses\<close>

text \<open>
  Python \<^verbatim>\<open>str\<close> is modelled as \<^typ>\<open>string\<close>. \<^verbatim>\<open>s.split(c)\<close> for a
  one-character separator always returns at least one piece; \<^verbatim>\<open>sep.join(xs)\<close>
  puts the separator between the pieces.
\<close>

fun str_split :: "char \<Rightarrow> string \<Rightarrow> string list" where
  "str_split c [] = [[]]"
| "str_split c (x # xs) =
     (if x = c then [] # str_split c xs
      else (case str_split c xs of
              [] \<Rightarrow> [[x]]
            | w # ws \<Rightarrow> (x # w) # ws))"

fun str_join :: "string \<Rightarrow> string list \<Rightarrow> string" where
  "str_join sep [] = []"
| "str_join sep [x] = x"
| "str_join sep (x # y # ys) = x @ sep @ str_join sep (y # ys)"

text \<open>The slices \<^verbatim>\<open>xs[:-1]\<close> and \<^verbatim>\<open>xs[:-2]\<close>; both are empty on a list that is too short.\<close>

definition slice_to_m1 :: "'a list \<Rightarrow> 'a list" where
  "slice_to_m1 xs = take (length xs - 1) xs"

definition slice_to_m2 :: "'a list \<Rightarrow> 'a list" where
  "slice_to_m2 xs = take (length xs - 2) xs"

text \<open>\<^verbatim>\<open>xs[-1]\<close> raises IndexError on the empty list.\<close>

datatype error = KeyError | TypeError | IndexError | AttributeError | AssertionError

definition index_m1 :: "'a list \<Rightarrow> error + 'a" where
  "index_m1 xs = (case xs of [] \<Rightarrow> Inl IndexError | _ \<Rightarrow> Inr (last xs))"

text \<open>\<^verbatim>\<open>s.replace(old, new)\<close> replaces every non-overlapping occurrence, left to right;
  \<^verbatim>\<open>s.replace(old, new, 1)\<close> only the first one. With an empty \<^verbatim>\<open>old\<close> Python inserts
  \<^verbatim>\<open>new\<close> around every character.\<close>

fun is_prefix :: "string \<Rightarrow> string \<Rightarrow> bool" where
  "is_prefix [] s = True"
| "is_prefix (p # ps) [] = False"
| "is_prefix (p # ps) (c # cs) = (p = c \<and> is_prefix ps cs)"

function str_replace_ne :: "string \<Rightarrow> string \<Rightarrow> string \<Rightarrow> string" where
  "str_replace_ne old new [] = []"
| "str_replace_ne old new (c # cs) =
     (if old \<noteq> [] \<and> is_prefix old (c # cs)
      then new @ str_replace_ne old new (drop (length old) (c # cs))
      else c # str_replace_ne old new cs)"
  by pat_completeness auto
termination
  by (relation "measure (\<lambda>(old, new, s). length s)") auto

definition str_replace :: "string \<Rightarrow> string \<Rightarrow> string \<Rightarrow> string" where
  "str_replace old new s =
     (if old = [] then new @ concat (map (\<lambda>c. c # new) s)
      else str_replace_ne old new s)"

fun str_replace1 :: "string \<Rightarrow> string \<Rightarrow> string \<Rightarrow> string" where
  "str_replace1 old new [] = (if old = [] then new else [])"
| "str_replace1 old new (c # cs) =
     (if is_prefix old (c # cs) then new @ drop (length old) (c # cs)
      else c # str_replace1 old new cs)"

text \<open>\<^verbatim>\<open>s.rstrip(c)\<close> for a single character.\<close>

definition str_rstrip :: "char \<Rightarrow> string \<Rightarrow> string" where
  "str_rstrip c s = rev (dropWhile (\<lambda>x. x = c) (rev s))"

text \<open>\<^verbatim>\<open>os.path.dirname\<close> on POSIX paths: the head up to and including the last slash,
  with trailing slashes removed unless the head is made of slashes only.\<close>

definition dirname :: "string \<Rightarrow> string" where
  "dirname p =
     (let head = rev (dropWhile (\<lambda>x. x \<noteq> CHR ''/'') (rev p))
      in if head \<noteq> [] \<and> \<not> (\<forall>x \<in> set head. x = CHR ''/'')
         then str_rstrip (CHR ''/'') head else head)"

section \<open>The symbol registry of \<^verbatim>\<open>extension.py\<close>\<close>

text \<open>
  A symbol record is the dictionary \<^verbatim>\<open>datam\<close>. The keys that every record carries are
  plain fields; the keys that only some records carry (\<^verbatim>\<open>source\<close>, \<^verbatim>\<open>class\<close>,
  \<^verbatim>\<open>children\<close>, \<^verbatim>\<open>inheritance\<close>, \<^verbatim>\<open>langs\<close>) are optional fields, \<open>None\<close> meaning
  that the key is absent. The field \<open>d_type\<close> is the key \<^verbatim>\<open>'type'\<close> and \<open>d_utype\<close> is the
  key \<^verbatim>\<open>'_type'\<close>.
\<close>

record remote_info =
  r_path :: string
  r_branch :: string
  r_repo :: string

record source_info =
  s_remote :: remote_info
  s_id :: string
  s_path :: string
  s_startLine :: int

record datam =
  d_module :: string
  d_uid :: string
  d_type :: string
  d_utype :: string
  d_name :: string
  d_fullName :: string
  d_summary :: string
  d_source :: "source_info option"
  d_class :: "string option"
  d_children :: "string list option"
  d_inheritance :: "string list option"
  d_langs :: "string list option"

text \<open>
  The documented Python object: \<^verbatim>\<open>__module__\<close>, \<^verbatim>\<open>__name__\<close>, \<^verbatim>\<open>__bases__\<close> (absent on
  objects that are not classes), and what \<^verbatim>\<open>inspect.getsourcefile\<close> and
  \<^verbatim>\<open>inspect.getsourcelines\<close> report for it. Python's base-class relation is acyclic, so
  an object together with its ancestors is a finite tree.
\<close>

datatype pyobj =
  PyObj (obj_module: string) (obj_name: string) (obj_bases: "pyobj list option")
        (obj_sourcefile: string) (obj_startline: int)

text \<open>
  The application: \<^verbatim>\<open>app.builder.srcdir\<close>, \<^verbatim>\<open>app.env.branch\<close>, \<^verbatim>\<open>app.env.remote\<close>, the
  registry \<^verbatim>\<open>app.env.docfx_yaml_modules\<close> and the lines printed so far.
\<close>

record app =
  srcdir :: string
  branch :: string
  remote :: string
  docfx_yaml_modules :: "string \<rightharpoonup> datam list"
  printed :: "string list"

definition TYPE_MAPPING :: "(string \<times> string) list" where
  "TYPE_MAPPING =
     [(''method'', ''Method''),
      (''function'', ''Method''),
      (''module'', ''Namespace''),
      (''class'', ''Class''),
      (''exception'', ''Class''),
      (''attribute'', ''Property'')]"

text \<open>
  \<^verbatim>\<open>_get_cls_module\<close>. The result \<open>None\<close> is Python's \<^verbatim>\<open>None\<close>.
\<close>

definition get_cls_module :: "string \<Rightarrow> string \<Rightarrow> string option \<times> string option" where
  "get_cls_module ty name =
     (if ty \<in> set [''function'', ''exception'']
      then (None, Some (str_join ''.'' (slice_to_m1 (str_split (CHR ''.'') name))))
      else if ty \<in> set [''method'', ''attribute'']
      then (Some (str_join ''.'' (slice_to_m1 (str_split (CHR ''.'') name))),
            Some (str_join ''.'' (slice_to_m2 (str_split (CHR ''.'') name))))
      else if ty \<in> set [''class'']
      then (None, Some (str_join ''.'' (slice_to_m1 (str_split (CHR ''.'') name))))
      else if ty \<in> set [''module'']
      then (None, Some name)
      else (None, None))"

text \<open>Truth value of an optional string: \<^verbatim>\<open>None\<close> and \<^verbatim>\<open>''\<close> are false.\<close>

definition truthy_str :: "string option \<Rightarrow> bool" where
  "truthy_str s = (case s of None \<Rightarrow> False | Some t \<Rightarrow> t \<noteq> [])"

text \<open>
  Subscripting a dictionary with string keys: the value, or \<^verbatim>\<open>KeyError\<close>. A string is
  always hashable, so \<^verbatim>\<open>TypeError\<close> is an outcome that a string key never has.
\<close>

datatype 'a getitem_result = Value 'a | RaisesKeyError | RaisesTypeError

definition dict_getitem :: "(string \<times> 'a) list \<Rightarrow> string \<Rightarrow> 'a getitem_result" where
  "dict_getitem d k = (case map_of d k of None \<Rightarrow> RaisesKeyError | Some v \<Rightarrow> Value v)"

text \<open>
  \<^verbatim>\<open>_create_datam\<close>. The handler around the lookup catches \<^verbatim>\<open>TypeError\<close> only, so a
  \<^verbatim>\<open>KeyError\<close> leaves the function. The result is the record and the application
  with the lines printed.
\<close>

definition create_datam ::
  "app \<Rightarrow> string option \<Rightarrow> string \<Rightarrow> string \<Rightarrow> string \<Rightarrow> pyobj \<Rightarrow> string list
     \<Rightarrow> error + (datam \<times> app)" where
  "create_datam ap cls module name ty obj lines =
     (case (case dict_getitem TYPE_MAPPING ty of
              Value v \<Rightarrow> Inr (v, ap)
            | RaisesTypeError \<Rightarrow>
                Inr (ty, ap\<lparr>printed := printed ap @ [''Invalid Type Mapping: '' @ ty]\<rparr>)
            | RaisesKeyError \<Rightarrow> Inl KeyError) of
        Inl e \<Rightarrow> Inl e
      | Inr (mapped_type, ap1) \<Rightarrow>
        (case index_m1 (str_split (CHR ''.'') name) of
           Inl e \<Rightarrow> Inl e
         | Inr short_name \<Rightarrow>
           let full_path = obj_sourcefile obj;
               path = str_replace1 ''/'' ''''
                        (str_replace (dirname (srcdir ap1)) '''' full_path);
               start_line = obj_startline obj;
               datam = \<lparr> d_module = module,
                         d_uid = name,
                         d_type = mapped_type,
                         d_utype = ty,
                         d_name = short_name,
                         d_fullName = name,
                         d_summary = str_join [CHR 0x0A] lines,
                         d_source = Some \<lparr> s_remote = \<lparr> r_path = path,
                                                       r_branch = branch ap1,
                                                       r_repo = remote ap1 \<rparr>,
                                           s_id = short_name,
                                           s_path = path,
                                           s_startLine = start_line \<rparr>,
                         d_class = None,
                         d_children = None,
                         d_inheritance = None,
                         d_langs = None \<rparr>;
               datam1 = (if truthy_str cls then datam\<lparr>d_class := cls\<rparr> else datam);
               datam2 = (if ty \<in> set [''class'', ''module'']
                         then datam1\<lparr>d_children := Some []\<rparr> else datam1)
           in Inr (datam2, ap1)))"

text \<open>\<^verbatim>\<open>_fullname\<close>.\<close>

definition fullname :: "pyobj \<Rightarrow> string" where
  "fullname obj = obj_module obj @ ''.'' @ obj_name obj"

text \<open>
  \<^verbatim>\<open>insert_inheritance\<close>: when the object has \<^verbatim>\<open>__bases__\<close>, make sure the record has
  an \<^verbatim>\<open>inheritance\<close> list, then for each base append its full name and recurse into
  the base with the same record.
\<close>

fun insert_inheritance :: "pyobj \<Rightarrow> datam \<Rightarrow> error + datam"
  and insert_inheritance_bases :: "pyobj list \<Rightarrow> datam \<Rightarrow> error + datam" where
  "insert_inheritance (PyObj m n bs sf sl) datam =
     (case bs of
        None \<Rightarrow> Inr datam
      | Some bases \<Rightarrow>
          insert_inheritance_bases bases
            (if d_inheritance datam = None then datam\<lparr>d_inheritance := Some []\<rparr> else datam))"
| "insert_inheritance_bases [] datam = Inr datam"
| "insert_inheritance_bases (base # rest) datam =
     (case d_inheritance datam of
        None \<Rightarrow> Inl KeyError
      | Some inh \<Rightarrow>
          (case insert_inheritance base (datam\<lparr>d_inheritance := Some (inh @ [fullname base])\<rparr>) of
             Inl e \<Rightarrow> Inl e
           | Inr datam' \<Rightarrow> insert_inheritance_bases rest datam'))"

text \<open>
  \<^verbatim>\<open>insert_children\<close>. \<^verbatim>\<open>obj['children'].append(uid)\<close> raises \<^verbatim>\<open>KeyError\<close> on a record
  without the key, and so does \<^verbatim>\<open>datam['class']\<close>. The three tests of the
  \<^verbatim>\<open>if\<close>/\<^verbatim>\<open>elif\<close> chain are evaluated left to right, as \<^verbatim>\<open>and\<close> does.
\<close>

definition append_child :: "datam \<Rightarrow> string \<Rightarrow> error + datam" where
  "append_child obj u =
     (case d_children obj of
        None \<Rightarrow> Inl KeyError
      | Some cs \<Rightarrow> Inr (obj\<lparr>d_children := Some (cs @ [u])\<rparr>))"

definition rule_member :: "string \<Rightarrow> datam \<Rightarrow> datam \<Rightarrow> error + bool" where
  "rule_member ty datam obj =
     (if ty \<in> set [''method'', ''attribute''] \<and> d_utype obj = ''class''
      then (case d_class datam of
              None \<Rightarrow> Inl KeyError
            | Some c \<Rightarrow> Inr (d_uid obj = c))
      else Inr False)"

definition rule_function :: "string \<Rightarrow> datam \<Rightarrow> datam \<Rightarrow> bool" where
  "rule_function ty datam obj =
     (ty \<in> set [''function''] \<and> d_utype obj = ''class'' \<and>
      d_name obj = d_module datam @ ''.Global'')"

definition rule_class :: "string \<Rightarrow> datam \<Rightarrow> datam \<Rightarrow> bool" where
  "rule_class ty datam obj =
     (ty \<in> set [''class'', ''exception''] \<and> d_utype obj = ''module'' \<and>
      d_module obj = d_module datam)"

fun insert_children_loop :: "string \<Rightarrow> datam \<Rightarrow> datam list \<Rightarrow> error + datam list" where
  "insert_children_loop ty datam [] = Inr []"
| "insert_children_loop ty datam (obj # rest) =
     (case rule_member ty datam obj of
        Inl e \<Rightarrow> Inl e
      | Inr b1 \<Rightarrow>
          if b1 \<or> rule_function ty datam obj \<or> rule_class ty datam obj
          then (case append_child obj (d_uid datam) of
                  Inl e \<Rightarrow> Inl e
                | Inr obj' \<Rightarrow> Inr (obj' # rest))
          else (case insert_children_loop ty datam rest of
                  Inl e \<Rightarrow> Inl e
                | Inr rest' \<Rightarrow> Inr (obj # rest')))"

definition insert_children :: "app \<Rightarrow> string \<Rightarrow> datam \<Rightarrow> error + app" where
  "insert_children ap ty datam =
     (case docfx_yaml_modules ap (d_module datam) of
        None \<Rightarrow> Inl KeyError
      | Some insert_module \<Rightarrow>
          (case insert_children_loop ty datam insert_module of
             Inl e \<Rightarrow> Inl e
           | Inr insert_module' \<Rightarrow>
               Inr (ap\<lparr>docfx_yaml_modules :=
                          (docfx_yaml_modules ap)(d_module datam \<mapsto> insert_module')\<rparr>)))"

text \<open>The record of the synthetic \<^verbatim>\<open>Global\<close> class that follows every module record.\<close>

definition global_holder :: "string \<Rightarrow> string \<Rightarrow> error + datam" where
  "global_holder module name =
     (case index_m1 (str_split (CHR ''.'') module) of
        Inl e \<Rightarrow> Inl e
      | Inr seg \<Rightarrow>
          Inr \<lparr> d_module = module,
                d_uid = module @ ''.Global'',
                d_type = ''Class'',
                d_utype = ''class'',
                d_name = seg @ ''.Global'',
                d_fullName = name,
                d_summary = ''Proxy object to hold module level functions'',
                d_source = None,
                d_class = None,
                d_children = Some [],
                d_inheritance = None,
                d_langs = Some [''python''] \<rparr>)"

text \<open>
  \<^verbatim>\<open>process_docstring\<close>. The new record is one object: it sits in the module's list
  at the position where it was appended, and \<^verbatim>\<open>insert_inheritance\<close> updates it there.
\<close>

definition process_docstring ::
  "app \<Rightarrow> string \<Rightarrow> string \<Rightarrow> pyobj \<Rightarrow> string list \<Rightarrow> error + app" where
  "process_docstring ap ty name obj lines =
     (case get_cls_module ty name of
        (cls, module_opt) \<Rightarrow>
          (case module_opt of
             None \<Rightarrow> Inr (ap\<lparr>printed := printed ap @ [''Unknown Type: '' @ ty]\<rparr>)
           | Some module \<Rightarrow>
               if module = [] then Inr (ap\<lparr>printed := printed ap @ [''Unknown Type: '' @ ty]\<rparr>)
               else
                 (case create_datam ap cls module name ty obj lines of
                    Inl e \<Rightarrow> Inl e
                  | Inr (datam, ap1) \<Rightarrow>
                     let old = (case docfx_yaml_modules ap1 module of None \<Rightarrow> [] | Some l \<Rightarrow> l);
                         pos = length old;
                         ap2 = ap1\<lparr>docfx_yaml_modules :=
                                     (docfx_yaml_modules ap1)(module \<mapsto> old @ [datam])\<rparr>
                     in (case (if ty = ''module''
                               then (case global_holder module name of
                                       Inl e \<Rightarrow> Inl e
                                     | Inr g \<Rightarrow>
                                         Inr (ap2\<lparr>docfx_yaml_modules :=
                                                (docfx_yaml_modules ap2)
                                                  (module \<mapsto> old @ [datam, g])\<rparr>))
                               else Inr ap2) of
                           Inl e \<Rightarrow> Inl e
                         | Inr ap3 \<Rightarrow>
                            (case insert_children ap3 ty datam of
                               Inl e \<Rightarrow> Inl e
                             | Inr ap4 \<Rightarrow>
                                (case docfx_yaml_modules ap4 module of
                                   None \<Rightarrow> Inl KeyError
                                 | Some l \<Rightarrow>
                                    (case insert_inheritance obj (l ! pos) of
                                       Inl e \<Rightarrow> Inl e
                                     | Inr datam' \<Rightarrow>
                                         Inr (ap4\<lparr>docfx_yaml_modules :=
                                                (docfx_yaml_modules ap4)
                                                  (module \<mapsto> l[pos := datam'])\<rparr>))))))))"

section \<open>The field data normalizer of \<^verbatim>\<open>monkeypatch.py\<close>\<close>

text \<open>
  The values that the data block holds: \<^verbatim>\<open>None\<close>, strings, lists and dictionaries.
  A dictionary is an association list in insertion order with distinct keys.
\<close>

datatype pyval = PNone | PStr string | PList "pyval list" | PDict "(string \<times> pyval) list"

type_synonym pydict = "(string \<times> pyval) list"

text \<open>Python's truth value: \<^verbatim>\<open>None\<close> and the empty string, list and dictionary are false.\<close>

fun truthy :: "pyval \<Rightarrow> bool" where
  "truthy PNone = False"
| "truthy (PStr s) = (s \<noteq> [])"
| "truthy (PList xs) = (xs \<noteq> [])"
| "truthy (PDict d) = (d \<noteq> [])"

fun dict_set :: "string \<Rightarrow> 'v \<Rightarrow> (string \<times> 'v) list \<Rightarrow> (string \<times> 'v) list" where
  "dict_set k v [] = [(k, v)]"
| "dict_set k v (kv # d) = (if fst kv = k then (k, v) # d else kv # dict_set k v d)"

definition dict_del :: "string \<Rightarrow> (string \<times> 'v) list \<Rightarrow> (string \<times> 'v) list" where
  "dict_del k d = filter (\<lambda>kv. fst kv \<noteq> k) d"

definition dict_update :: "(string \<times> 'v) list \<Rightarrow> (string \<times> 'v) list \<Rightarrow> (string \<times> 'v) list" where
  "dict_update d other = foldl (\<lambda>acc kv. dict_set (fst kv) (snd kv) acc) d other"

text \<open>\<^verbatim>\<open>d[k].append(v)\<close>: \<^verbatim>\<open>KeyError\<close> without the key, \<^verbatim>\<open>AttributeError\<close> when the value
  is no list.\<close>

definition append_at :: "string \<Rightarrow> pyval \<Rightarrow> pydict \<Rightarrow> error + pydict" where
  "append_at k v d =
     (case map_of d k of
        None \<Rightarrow> Inl KeyError
      | Some (PList xs) \<Rightarrow> Inr (dict_set k (PList (xs @ [v])) d)
      | Some _ \<Rightarrow> Inl AttributeError)"

text \<open>\<^verbatim>\<open>d.setdefault(k, []).append(v)\<close>.\<close>

definition setdefault_append :: "string \<Rightarrow> pyval \<Rightarrow> pydict \<Rightarrow> error + pydict" where
  "setdefault_append k v d =
     (case map_of d k of
        None \<Rightarrow> Inr (dict_set k (PList [v]) d)
      | Some (PList xs) \<Rightarrow> Inr (dict_set k (PList (xs @ [v])) d)
      | Some _ \<Rightarrow> Inl AttributeError)"

text \<open>
  A docutils node, as far as the normalizer looks at it: its tag name (the class of the
  node), its attributes, the text \<^verbatim>\<open>astext()\<close> reports and its children.
\<close>

datatype node =
  Node (tagname: string) (attributes: "(string \<times> string) list") (astext: string)
       (children: "node list")

text \<open>
  \<^verbatim>\<open>re.split(' or[ \n]', s)\<close>: the pieces between the non-overlapping matches, found
  from left to right.
\<close>

definition is_or_sep :: "string \<Rightarrow> bool" where
  "is_or_sep s = (is_prefix '' or '' s \<or> is_prefix ('' or'' @ [CHR 0x0A]) s)"

function re_split_or :: "string \<Rightarrow> string list" where
  "re_split_or [] = [[]]"
| "re_split_or (c # cs) =
     (if is_or_sep (c # cs) then [] # re_split_or (drop 4 (c # cs))
      else (case re_split_or cs of
              [] \<Rightarrow> [[c]]
            | w # ws \<Rightarrow> (c # w) # ws))"
  by pat_completeness auto
termination
  by (relation "measure length") auto

text \<open>\<^verbatim>\<open>s.startswith('@') or s.startswith('~')\<close>.\<close>

definition has_sigil :: "string \<Rightarrow> bool" where
  "has_sigil s = (is_prefix ''@'' s \<or> is_prefix ''~'' s)"

text \<open>\<^verbatim>\<open>xs[0]\<close>.\<close>

definition index_0 :: "'a list \<Rightarrow> error + 'a" where
  "index_0 xs = (case xs of [] \<Rightarrow> Inl IndexError | x # _ \<Rightarrow> Inr x)"

text \<open>
  An entry of the parser's output is either an old field that is passed through
  or a pair of the field type and its content. The content of a grouped field type
  (\<^verbatim>\<open>parameter\<close>, \<^verbatim>\<open>variable\<close>, \<^verbatim>\<open>exceptions\<close>) is a list of pairs of an argument and
  its nodes; the content of the other field types (\<^verbatim>\<open>returntype\<close>, \<^verbatim>\<open>returnvalue\<close>) is
  one such pair. Content of the wrong shape is a \<^verbatim>\<open>TypeError\<close> in the model.
\<close>

datatype content = Single string "node list" | Group "(string \<times> node list) list"

datatype entry = FieldNode node | Entry (fieldtype_name: string) content

type_synonym types = "(string \<times> (string \<times> node list) list) list"

definition make_param :: "string \<Rightarrow> string \<Rightarrow> pyval \<Rightarrow> pyval" where
  "make_param p_id p_description p_type =
     PDict ([(''id'', PStr p_id), (''description'', PStr p_description)] @
            (if truthy p_type then [(''type'', p_type)] else []))"

text \<open>\<^verbatim>\<open>transform_node\<close> comes from \<^verbatim>\<open>utils.py\<close>; it is the parameter \<open>tn\<close> of the model
  and renders a node as text.\<close>

definition transform_para :: "(node \<Rightarrow> string) \<Rightarrow> node \<Rightarrow> string" where
  "transform_para tn para_field =
     (if tagname para_field = ''pending_xref'' then tn para_field else astext para_field)"

text \<open>
  \<^verbatim>\<open>extract_exception_desc\<close>: the reference targets of the \<^verbatim>\<open>Raises\<close> fields of the raw
  field list. A field is the pair of its name node and its body node. The test
  \<^verbatim>\<open>isinstance(n, nodes.Invisible)\<close> is the test of the tag name against the node classes
  that derive from \<^verbatim>\<open>Invisible\<close>.
\<close>

definition invisible_tags :: "string list" where
  "invisible_tags =
     [''comment'', ''pending'', ''substitution_definition'', ''target'', ''index'']"

fun first_child_matching_class :: "string \<Rightarrow> node list \<Rightarrow> node option" where
  "first_child_matching_class t [] = None"
| "first_child_matching_class t (n # ns) =
     (if tagname n = t then Some n else first_child_matching_class t ns)"

definition raise_of_child :: "node \<Rightarrow> error + string list" where
  "raise_of_child child =
     (if tagname child = ''paragraph''
      then (case first_child_matching_class ''pending_xref'' (children child) of
              None \<Rightarrow> Inr []
            | Some pending_xref \<Rightarrow>
                (case first_child_matching_class ''literal'' (children pending_xref) of
                   None \<Rightarrow> Inr []
                 | Some raise_type \<Rightarrow>
                     (case map_of (attributes pending_xref) ''reftarget'' of
                        None \<Rightarrow> Inl KeyError
                      | Some target \<Rightarrow> Inr [target])))
      else Inr [])"

fun raises_of_children :: "node list \<Rightarrow> error + string list" where
  "raises_of_children [] = Inr []"
| "raises_of_children (child # rest) =
     (case raise_of_child child of
        Inl e \<Rightarrow> Inl e
      | Inr ts \<Rightarrow>
          (case raises_of_children rest of
             Inl e \<Rightarrow> Inl e
           | Inr ts' \<Rightarrow> Inr (ts @ ts')))"

fun extract_exception_desc :: "(node \<times> node) list \<Rightarrow> error + string list" where
  "extract_exception_desc [] = Inr []"
| "extract_exception_desc (field # rest) =
     (case (if tagname (fst field) = ''field_name'' \<and> astext (fst field) = ''Raises''
            then (if tagname (snd field) = ''field_body''
                  then raises_of_children
                         (filter (\<lambda>n. tagname n \<notin> set invisible_tags) (children (snd field)))
                  else Inl AssertionError)
            else Inr []) of
        Inl e \<Rightarrow> Inl e
      | Inr ts \<Rightarrow>
          (case extract_exception_desc rest of
             Inl e \<Rightarrow> Inl e
           | Inr ts' \<Rightarrow> Inr (ts @ ts')))"

text \<open>Sequencing of steps that may raise, and the \<^verbatim>\<open>for\<close> loop over a list.\<close>

definition ebind :: "error + 'a \<Rightarrow> ('a \<Rightarrow> error + 'b) \<Rightarrow> error + 'b" where
  "ebind m f = (case m of Inl e \<Rightarrow> Inl e | Inr x \<Rightarrow> f x)"

fun efold :: "('a \<Rightarrow> 's \<Rightarrow> error + 's) \<Rightarrow> 'a list \<Rightarrow> 's \<Rightarrow> error + 's" where
  "efold f [] s = Inr s"
| "efold f (x # xs) s = ebind (f x s) (efold f xs)"

text \<open>The body of the loop over an \<^verbatim>\<open>exceptions\<close> entry.\<close>

definition add_exception :: "(node \<Rightarrow> string) \<Rightarrow> string \<times> node list \<Rightarrow> pydict \<Rightarrow> error + pydict" where
  "add_exception tn e data =
     ebind (index_0 (snd e)) (\<lambda>n.
       append_at ''exceptions''
         (PDict [(''type'', PStr (fst e)), (''description'', PStr (tn n))]) data)"

text \<open>The body of the loop over the candidates of one return type text:
  \<^verbatim>\<open>data['return'].setdefault('type', []).append(returntype.rstrip('\n'))\<close> after the sigil
  is removed.\<close>

definition add_return_type :: "string \<Rightarrow> pydict \<Rightarrow> error + pydict" where
  "add_return_type returntype data =
     (let returntype' = (if has_sigil returntype then drop 1 returntype else returntype)
      in (case map_of data ''return'' of
            None \<Rightarrow> Inl KeyError
          | Some (PDict r) \<Rightarrow>
              ebind (setdefault_append ''type'' (PStr (str_rstrip (CHR 0x0A) returntype')) r)
                (\<lambda>r'. Inr (dict_set ''return'' (PDict r') data))
          | Some _ \<Rightarrow> Inl AttributeError))"

definition add_returntype_node :: "(node \<Rightarrow> string) \<Rightarrow> node \<Rightarrow> pydict \<Rightarrow> error + pydict" where
  "add_returntype_node tn returntype_node data =
     (let returntype_ret = tn returntype_node
      in if returntype_ret \<noteq> []
         then efold add_return_type (re_split_or returntype_ret) data
         else Inr data)"

definition set_return_description :: "(node \<Rightarrow> string) \<Rightarrow> node list \<Rightarrow> pydict \<Rightarrow> error + pydict" where
  "set_return_description tn nodes data =
     ebind (index_0 nodes) (\<lambda>n.
       let returnvalue_ret = tn n
       in if returnvalue_ret \<noteq> []
          then (case map_of data ''return'' of
                  None \<Rightarrow> Inl KeyError
                | Some (PDict r) \<Rightarrow>
                    Inr (dict_set ''return''
                           (PDict (dict_set ''description'' (PStr returnvalue_ret) r)) data)
                | Some _ \<Rightarrow> Inl TypeError)
          else Inr data)"

text \<open>The candidate of a parameter type: the newline is removed in the branch that
  removes the sigil.\<close>

definition para_type :: "string \<Rightarrow> string" where
  "para_type s_type =
     (if s_type \<noteq> [] \<and> has_sigil s_type
      then str_rstrip (CHR 0x0A) (drop 1 s_type)
      else s_type)"

definition declared_type ::
  "(node \<Rightarrow> string) \<Rightarrow> (string \<times> node list) list \<Rightarrow> string \<Rightarrow> string option" where
  "declared_type tn fieldtypes field =
     (case map_of fieldtypes field of
        Some ns \<Rightarrow> Some (concat (map (transform_para tn) ns))
      | None \<Rightarrow> None)"

definition opt_val :: "string option \<Rightarrow> pyval" where
  "opt_val t = (case t of None \<Rightarrow> PNone | Some s \<Rightarrow> PStr s)"

text \<open>The body of the loop over a \<^verbatim>\<open>parameter\<close> or \<^verbatim>\<open>variable\<close> entry. The list
  \<^verbatim>\<open>_para_types\<close> is shared by the two \<^verbatim>\<open>if\<close> statements.\<close>

definition add_field ::
  "(node \<Rightarrow> string) \<Rightarrow> string \<Rightarrow> (string \<times> node list) list \<Rightarrow> string \<times> node list
     \<Rightarrow> pydict \<Rightarrow> error + pydict" where
  "add_field tn name fieldtypes f data =
     ebind (index_0 (snd f)) (\<lambda>n.
       let p_id = fst f;
           p_description = tn n;
           p_type = declared_type tn fieldtypes (fst f);
           para_types0 = []
       in ebind
            (if name = ''parameter''
             then let para_types1 =
                        (case p_type of
                           None \<Rightarrow> para_types0
                         | Some t \<Rightarrow>
                             if t \<noteq> []
                             then para_types0 @ map (\<lambda>s. PStr (para_type s)) (re_split_or t)
                             else para_types0)
                  in ebind (append_at ''parameters''
                              (make_param p_id p_description (PList para_types1)) data)
                       (\<lambda>data'. Inr (para_types1, data'))
             else Inr (para_types0, data))
            (\<lambda>(para_types1, data1).
               if name = ''variable''
               then let para_types2 = para_types1 @ [opt_val p_type]
                    in append_at ''variables''
                         (make_param p_id p_description (PList para_types2)) data1
               else Inr data1))"

definition add_raises :: "string \<Rightarrow> pydict \<Rightarrow> error + pydict" where
  "add_raises t data = setdefault_append ''exceptions'' (PDict [(''type'', PStr t)]) data"

text \<open>The body of the loop over the entries.\<close>

definition process_entry ::
  "(node \<Rightarrow> string) \<Rightarrow> types \<Rightarrow> (node \<times> node) list \<Rightarrow> entry \<Rightarrow> pydict \<Rightarrow> error + pydict" where
  "process_entry tn types field_object entry data =
     (case entry of
        FieldNode _ \<Rightarrow> Inr data
      | Entry name content \<Rightarrow>
          let fieldtypes = (case map_of types name of None \<Rightarrow> [] | Some ft \<Rightarrow> ft)
          in ebind (if name = ''exceptions''
                    then (case content of
                            Group c \<Rightarrow> efold (add_exception tn) c data
                          | Single _ _ \<Rightarrow> Inl TypeError)
                    else Inr data) (\<lambda>data1.
             ebind (if name = ''returntype''
                    then (case content of
                            Single _ nodes \<Rightarrow> efold (add_returntype_node tn) nodes data1
                          | Group _ \<Rightarrow> Inl TypeError)
                    else Inr data1) (\<lambda>data2.
             ebind (if name = ''returnvalue''
                    then (case content of
                            Single _ nodes \<Rightarrow> set_return_description tn nodes data2
                          | Group _ \<Rightarrow> Inl TypeError)
                    else Inr data2) (\<lambda>data3.
             if name \<in> set [''parameter'', ''variable'']
             then (case content of
                     Group c \<Rightarrow>
                       ebind (efold (add_field tn name fieldtypes) c data3) (\<lambda>data4.
                       ebind (extract_exception_desc field_object) (\<lambda>ret_list.
                         efold add_raises ret_list data4))
                   | Single _ _ \<Rightarrow> Inl TypeError)
             else Inr data3))))"

definition initial_data :: pydict where
  "initial_data =
     [(''parameters'', PList []),
      (''variables'', PList []),
      (''exceptions'', PList []),
      (''return'', PDict [])]"

definition get_data_structure ::
  "(node \<Rightarrow> string) \<Rightarrow> entry list \<Rightarrow> types \<Rightarrow> (node \<times> node) list \<Rightarrow> error + pydict" where
  "get_data_structure tn entries types field_object =
     efold (process_entry tn types field_object) entries initial_data"

section \<open>\<^verbatim>\<open>PatchedDocFieldTransformer.transform_all\<close>\<close>

text \<open>
  The children of the description content, by the branch of the loop that handles them.
  A \<^verbatim>\<open>desc\<close> child carries the attribute records captured from its signatures, a
  field list carries the entries and the type table that \<^verbatim>\<open>_hacked_transform\<close> returns
  for it together with its raw fields, an admonition carries the text of its title, its
  copy without the title, and itself.
\<close>

datatype child =
  DescChild "pyval list"
| FieldListChild "entry list" types "(node \<times> node) list"
| SeeAlsoChild node
| AdmonitionChild string node node
| OtherChild node

fun contains :: "string \<Rightarrow> string \<Rightarrow> bool" where
  "contains sub [] = (sub = [])"
| "contains sub (c # cs) = (is_prefix sub (c # cs) \<or> contains sub cs)"

definition add_summary :: "(node \<Rightarrow> string) \<Rightarrow> node \<Rightarrow> string list \<Rightarrow> string list" where
  "add_summary tn n summary =
     (let content = tn n
      in if \<not> is_prefix ''Bases: '' content then summary @ [content] else summary)"

definition add_attribute :: "pyval \<Rightarrow> pydict \<Rightarrow> error + pydict" where
  "add_attribute addedData data =
     (let data' = (case map_of data ''added_attribute'' of
                     None \<Rightarrow> dict_set ''added_attribute'' (PList []) data
                   | Some _ \<Rightarrow> data)
      in append_at ''added_attribute'' addedData data')"

definition transform_child ::
  "(node \<Rightarrow> string) \<Rightarrow> child \<Rightarrow> string list \<times> pydict \<Rightarrow> error + (string list \<times> pydict)" where
  "transform_child tn ch st =
     (case st of (summary, data) \<Rightarrow>
        (case ch of
           DescChild added \<Rightarrow>
             ebind (efold add_attribute added data) (\<lambda>data'. Inr (summary, data'))
         | FieldListChild entries types field_object \<Rightarrow>
             ebind (get_data_structure tn entries types field_object) (\<lambda>d.
               Inr (summary, dict_update data d))
         | SeeAlsoChild n \<Rightarrow> Inr (summary, dict_set ''seealso'' (PStr (tn n)) data)
         | AdmonitionChild title child_copy n \<Rightarrow>
             if contains ''Example'' title
             then Inr (summary, dict_set ''example'' (PStr (tn child_copy)) data)
             else Inr (add_summary tn n summary, data)
         | OtherChild n \<Rightarrow> Inr (add_summary tn n summary, data)))"

text \<open>The loop that removes the empty values: it runs over a copy of the dictionary and
  deletes from the dictionary itself.\<close>

definition drop_empty :: "pydict \<Rightarrow> pydict" where
  "drop_empty data =
     foldl (\<lambda>d kv. if \<not> truthy (snd kv) then dict_del (fst kv) d else d) data data"

definition final_data :: "string list \<Rightarrow> pydict \<Rightarrow> pydict" where
  "final_data summary data =
     drop_empty (if summary \<noteq> []
                 then dict_set ''summary'' (PStr (str_join [CHR 0x0A] summary)) data
                 else data)"

text \<open>
  \<^verbatim>\<open>transform_all\<close>, up to the call of the inherited method. The identifier \<open>uid\<close> is the
  one \<^verbatim>\<open>_get_desc_data\<close> returns for the parent node (\<^verbatim>\<open>None\<close> for a foreign domain), and
  \<open>info\<close> is \<^verbatim>\<open>env.docfx_info_field_data\<close>.
\<close>

definition transform_all ::
  "(node \<Rightarrow> string) \<Rightarrow> string option \<Rightarrow> child list \<Rightarrow> (string option \<rightharpoonup> pydict)
     \<Rightarrow> error + (string option \<rightharpoonup> pydict)" where
  "transform_all tn uid node info =
     ebind (efold (transform_child tn) node ([], [])) (\<lambda>(summary, data).
       Inr (info(uid \<mapsto> final_data summary data)))"

section \<open>Notions used in the statements\<close>

text \<open>
  A record of the module's list matches the new record when one of the three rules of
  \<^verbatim>\<open>insert_children\<close> holds for it. The occurrences of an identifier count how often it
  stands in the children lists of a list of records. A list is linkable for a new record
  when the keys that \<^verbatim>\<open>insert_children\<close> subscripts are there: \<^verbatim>\<open>class\<close> on a new method
  or attribute, \<^verbatim>\<open>children\<close> on every class and module record, as \<^verbatim>\<open>_create_datam\<close> and
  the \<^verbatim>\<open>Global\<close> record have them.
\<close>

definition matches :: "string \<Rightarrow> datam \<Rightarrow> datam \<Rightarrow> bool" where
  "matches ty datam obj =
     (rule_member ty datam obj = Inr True \<or> rule_function ty datam obj \<or> rule_class ty datam obj)"

definition children_of :: "datam \<Rightarrow> string list" where
  "children_of obj = (case d_children obj of None \<Rightarrow> [] | Some cs \<Rightarrow> cs)"

definition occurrences :: "string \<Rightarrow> datam list \<Rightarrow> nat" where
  "occurrences u objs = sum_list (map (\<lambda>obj. count_list (children_of obj) u) objs)"

definition linkable :: "string \<Rightarrow> datam \<Rightarrow> datam list \<Rightarrow> bool" where
  "linkable ty datam objs =
     ((ty \<in> set [''method'', ''attribute''] \<longrightarrow> d_class datam \<noteq> None) \<and>
      list_all (\<lambda>obj. d_utype obj \<in> set [''class'', ''module''] \<longrightarrow> d_children obj \<noteq> None) objs)"

text \<open>
  The ancestors of an object in depth-first order over the declared bases, the name of
  each base before the ancestors of that base.
\<close>

fun dfs_ancestors :: "pyobj \<Rightarrow> string list"
  and dfs_ancestors_bases :: "pyobj list \<Rightarrow> string list" where
  "dfs_ancestors (PyObj m n bs sf sl) =
     (case bs of None \<Rightarrow> [] | Some bases \<Rightarrow> dfs_ancestors_bases bases)"
| "dfs_ancestors_bases [] = []"
| "dfs_ancestors_bases (base # rest) =
     fullname base # dfs_ancestors base @ dfs_ancestors_bases rest"

definition inheritance_of :: "datam \<Rightarrow> string list" where
  "inheritance_of datam = (case d_inheritance datam of None \<Rightarrow> [] | Some inh \<Rightarrow> inh)"

text \<open>
  The data block of \<^verbatim>\<open>get_data_structure\<close> with its four keys, and what it holds under
  \<^verbatim>\<open>return\<close>.
\<close>

definition mk_data :: "pyval list \<Rightarrow> pyval list \<Rightarrow> pyval list \<Rightarrow> pydict \<Rightarrow> pydict" where
  "mk_data ps vs es r =
     [(''parameters'', PList ps), (''variables'', PList vs), (''exceptions'', PList es),
      (''return'', PDict r)]"

definition return_of :: "pydict \<Rightarrow> pydict" where
  "return_of data = (case map_of data ''return'' of Some (PDict r) \<Rightarrow> r | _ \<Rightarrow> [])"

definition return_type :: "pydict \<Rightarrow> pyval option" where
  "return_type data = map_of (return_of data) ''type''"

definition return_description :: "pydict \<Rightarrow> pyval option" where
  "return_description data = map_of (return_of data) ''description''"

text \<open>
  The candidates of a return type text: the pieces between the separators, each without
  one leading sigil and without its trailing newlines.
\<close>

definition return_candidate :: "string \<Rightarrow> string" where
  "return_candidate c = str_rstrip (CHR 0x0A) (if has_sigil c then drop 1 c else c)"

definition return_candidates :: "string \<Rightarrow> string list" where
  "return_candidates s = map return_candidate (re_split_or s)"

text \<open>
  The rendered texts of the \<^verbatim>\<open>returntype\<close> entries and of the \<^verbatim>\<open>returnvalue\<close> entries of
  an entry list, in the order of the entries.
\<close>

fun entry_returntype_texts :: "(node \<Rightarrow> string) \<Rightarrow> entry \<Rightarrow> string list" where
  "entry_returntype_texts tn (Entry name (Single arg nodes)) =
     (if name = ''returntype'' then map tn nodes else [])"
| "entry_returntype_texts tn _ = []"

definition returntype_texts :: "(node \<Rightarrow> string) \<Rightarrow> entry list \<Rightarrow> string list" where
  "returntype_texts tn entries = concat (map (entry_returntype_texts tn) entries)"

fun entry_returnvalue_texts :: "(node \<Rightarrow> string) \<Rightarrow> entry \<Rightarrow> string list" where
  "entry_returnvalue_texts tn (Entry name (Single arg (n # ns))) =
     (if name = ''returnvalue'' then [tn n] else [])"
| "entry_returnvalue_texts tn _ = []"

definition returnvalue_texts :: "(node \<Rightarrow> string) \<Rightarrow> entry list \<Rightarrow> string list" where
  "returnvalue_texts tn entries = concat (map (entry_returnvalue_texts tn) entries)"

definition nonempty :: "string list \<Rightarrow> string list" where
  "nonempty xs = filter (\<lambda>s. s \<noteq> []) xs"

definition last_of :: "pyval option \<Rightarrow> string list \<Rightarrow> pyval option" where
  "last_of d xs = (if xs = [] then d else Some (PStr (last xs)))"

text \<open>
  The entries that the parser builds: a grouped field type has a list of pairs, each with
  at least one node, the other field types have one pair, and a \<^verbatim>\<open>returnvalue\<close> has at
  least one node. The raw field list is in order when every cross-reference under
  \<^verbatim>\<open>Raises\<close> has its target.
\<close>

definition raises_ok :: "(node \<times> node) list \<Rightarrow> bool" where
  "raises_ok field_object =
     (case extract_exception_desc field_object of Inl _ \<Rightarrow> False | Inr _ \<Rightarrow> True)"

fun wf_entry :: "entry \<Rightarrow> bool" where
  "wf_entry (FieldNode n) = True"
| "wf_entry (Entry name (Single arg nodes)) =
     (name \<notin> set [''exceptions'', ''parameter'', ''variable''] \<and>
      (name = ''returnvalue'' \<longrightarrow> nodes \<noteq> []))"
| "wf_entry (Entry name (Group c)) =
     (name \<notin> set [''returntype'', ''returnvalue''] \<and>
      (name \<in> set [''exceptions'', ''parameter'', ''variable''] \<longrightarrow>
         list_all (\<lambda>f. snd f \<noteq> []) c))"

text \<open>The value under \<^verbatim>\<open>type\<close> of the return dictionary after the candidates \<open>cands\<close>.\<close>

definition type_inv :: "pydict \<Rightarrow> string list \<Rightarrow> bool" where
  "type_inv r cands =
     (map_of r ''type'' = (if cands = [] then None else Some (PList (map PStr cands))))"

section \<open>Concrete inputs\<close>

definition app0 :: app where
  "app0 = \<lparr>srcdir = ''/home/u/docs'', branch = ''main'', remote = ''origin'',
           docfx_yaml_modules = Map.empty, printed = []\<rparr>"

definition process_events :: "app \<Rightarrow> (string \<times> string \<times> pyobj) list \<Rightarrow> error + app" where
  "process_events ap evs =
     efold (\<lambda>ev a. process_docstring a (fst ev) (fst (snd ev)) (snd (snd ev)) []) evs ap"

definition links :: "app \<Rightarrow> string \<Rightarrow> (string \<times> string list option) list option" where
  "links ap m = map_option (map (\<lambda>d. (d_uid d, d_children d))) (docfx_yaml_modules ap m)"

definition obj_of :: "string \<Rightarrow> string \<Rightarrow> pyobj" where
  "obj_of m n = PyObj m n None (''/home/u/'' @ m @ ''.py'') 1"

definition mk_record ::
  "string \<Rightarrow> string \<Rightarrow> string \<Rightarrow> string \<Rightarrow> string \<Rightarrow> string option \<Rightarrow> string list option
     \<Rightarrow> datam" where
  "mk_record module uid mapped ty name cls chs =
     \<lparr> d_module = module, d_uid = uid, d_type = mapped, d_utype = ty, d_name = name,
       d_fullName = uid, d_summary = [], d_source = None, d_class = cls,
       d_children = chs, d_inheritance = None, d_langs = None \<rparr>"

definition bar :: datam where
  "bar = mk_record ''pkg'' ''pkg.Foo.bar'' ''Method'' ''method'' ''bar'' (Some ''pkg.Foo'') None"

definition pkg_records :: "datam list" where
  "pkg_records =
     [mk_record ''pkg'' ''pkg'' ''Namespace'' ''module'' ''pkg'' None (Some []),
      mk_record ''pkg'' ''pkg.Global'' ''Class'' ''class'' ''pkg.Global'' None (Some []),
      mk_record ''pkg'' ''pkg.Foo'' ''Class'' ''class'' ''Foo'' None (Some []),
      bar]"

definition app1 :: app where
  "app1 = app0\<lparr>docfx_yaml_modules := [''pkg'' \<mapsto> pkg_records]\<rparr>"

definition class_obj :: "string \<Rightarrow> string \<Rightarrow> pyobj list \<Rightarrow> pyobj" where
  "class_obj m n bases = PyObj m n (Some bases) (''/home/u/'' @ m @ ''.py'') 1"

definition text_node :: "string \<Rightarrow> node" where
  "text_node s = Node ''#text'' [] s []"

definition rtype_entries :: "entry list" where
  "rtype_entries =
     [Entry ''returntype'' (Single [] [text_node ''int or str'']),
      Entry ''returntype'' (Single [] [text_node (''~mypkg.Foo'' @ [CHR 0x0A])])]"

definition rvalue_entries :: "entry list" where
  "rvalue_entries =
     [Entry ''returnvalue'' (Single [] [text_node ''first'']),
      Entry ''returnvalue'' (Single [] [text_node ''second'']),
      Entry ''returnvalue'' (Single [] [text_node []])]"

definition kids :: "child list" where
  "kids =
     [FieldListChild [] [] [],
      OtherChild (text_node ''Bases: object''),
      OtherChild (text_node ''Hello.'')]"

section \<open>Properties of the symbol record builder\<close>

lemma str_split_ne: "str_split c s \<noteq> []"
  by (induction s) (auto split: list.splits)

lemma index_m1_split: "index_m1 (str_split c s) = Inr (last (str_split c s))"
  using str_split_ne [of c s] by (simp add: index_m1_def split: list.splits)

lemma slice_to_m1_butlast: "slice_to_m1 xs = butlast xs"
  by (simp add: slice_to_m1_def butlast_conv_take)

lemma slice_to_m2_butlast: "slice_to_m2 xs = butlast (butlast xs)"
  by (simp add: slice_to_m2_def butlast_conv_take numeral_2_eq_2)

lemma resolved_kind:
  "truthy_str (snd (get_cls_module ty name)) \<Longrightarrow>
     ty \<in> {''function'', ''exception'', ''class'', ''method'', ''attribute'', ''module''}"
  by (auto simp: get_cls_module_def truthy_str_def split: if_splits)

lemma kind_mapped:
  "ty \<in> {''function'', ''exception'', ''class'', ''method'', ''attribute'', ''module''} \<Longrightarrow>
     \<exists>v. dict_getitem TYPE_MAPPING ty = Value v"
  by (auto simp: dict_getitem_def TYPE_MAPPING_def)

lemma create_datam_Value:
  "dict_getitem TYPE_MAPPING ty = Value v \<Longrightarrow>
     \<exists>datam. create_datam ap cls module name ty obj lines = Inr (datam, ap) \<and> d_type datam = v"
  unfolding create_datam_def
  apply (simp only: getitem_result.case sum.case prod.case index_m1_split)
  apply (simp only: Let_def)
  apply (simp only: if_distrib[of d_type] if_distrib[of "\<lambda>d. Inr (d, ap)"])
  apply simp
  done

text \<open>
  Claim C10. A record that reaches \<^verbatim>\<open>_create_datam\<close> through \<^verbatim>\<open>process_docstring\<close> has
  a kind for which \<^verbatim>\<open>_get_cls_module\<close> gave a non-empty module, hence one of the six keys
  of \<^verbatim>\<open>TYPE_MAPPING\<close>: the lookup returns a value, \<^verbatim>\<open>_create_datam\<close> returns the record
  with that value as its \<^verbatim>\<open>type\<close> and prints nothing, so the fallback branch is not
  taken. The handler does not catch a missing key: there \<^verbatim>\<open>_create_datam\<close> raises
  \<^verbatim>\<open>KeyError\<close>. A lookup with a string key never raises \<^verbatim>\<open>TypeError\<close>.
\<close>

theorem type_mapping_lookup_succeeds:
  "(truthy_str (snd (get_cls_module ty name)) \<longrightarrow>
      (\<exists>v datam. dict_getitem TYPE_MAPPING ty = Value v \<and>
         create_datam ap cls module name ty obj lines = Inr (datam, ap) \<and>
         d_type datam = v)) \<and>
   (dict_getitem TYPE_MAPPING ty = RaisesKeyError \<longrightarrow>
      create_datam ap cls module name ty obj lines = Inl KeyError) \<and>
   dict_getitem TYPE_MAPPING ty \<noteq> RaisesTypeError"
proof (intro conjI impI)
  assume "truthy_str (snd (get_cls_module ty name))"
  then have "ty \<in> {''function'', ''exception'', ''class'', ''method'', ''attribute'', ''module''}"
    by (rule resolved_kind)
  then have "\<exists>v. dict_getitem TYPE_MAPPING ty = Value v"
    by (rule kind_mapped)
  then obtain v where v: "dict_getitem TYPE_MAPPING ty = Value v" ..
  have "\<exists>datam. create_datam ap cls module name ty obj lines = Inr (datam, ap) \<and> d_type datam = v"
    using v by (rule create_datam_Value)
  then obtain datam where d: "create_datam ap cls module name ty obj lines = Inr (datam, ap)"
      and t: "d_type datam = v"
    by auto
  show "\<exists>v datam. dict_getitem TYPE_MAPPING ty = Value v \<and>
         create_datam ap cls module name ty obj lines = Inr (datam, ap) \<and> d_type datam = v"
    using v d t by (intro exI conjI)
next
  assume "dict_getitem TYPE_MAPPING ty = RaisesKeyError"
  then show "create_datam ap cls module name ty obj lines = Inl KeyError"
    by (simp add: create_datam_def)
next
  show "dict_getitem TYPE_MAPPING ty \<noteq> RaisesTypeError"
    by (simp add: dict_getitem_def split: option.splits)
qed

theorem type_mapping_lookup_succeeds_witness:
  "truthy_str (snd (get_cls_module ''exception'' ''pkg.Oops'')) \<and>
   dict_getitem TYPE_MAPPING ''exception'' = Value ''Class'' \<and>
   (\<exists>datam. create_datam app0 None ''pkg'' ''pkg.Oops'' ''exception''
               (PyObj ''pkg'' ''Oops'' (Some []) ''/home/u/pkg.py'' 7) [] = Inr (datam, app0) \<and>
            d_type datam = ''Class'') \<and>
   dict_getitem TYPE_MAPPING ''widget'' = RaisesKeyError \<and>
   create_datam app0 None ''pkg'' ''pkg.w'' ''widget''
     (PyObj ''pkg'' ''w'' None ''/home/u/pkg.py'' 7) [] = Inl KeyError"
proof -
  have h: "truthy_str (snd (get_cls_module ''exception'' ''pkg.Oops''))"
    by (simp add: get_cls_module_def truthy_str_def slice_to_m1_def)
  have v: "dict_getitem TYPE_MAPPING ''exception'' = Value ''Class''"
    by (simp add: dict_getitem_def TYPE_MAPPING_def)
  have k: "dict_getitem TYPE_MAPPING ''widget'' = RaisesKeyError"
    by (simp add: dict_getitem_def TYPE_MAPPING_def)
  from type_mapping_lookup_succeeds
         [of "''exception''" "''pkg.Oops''" app0 None "''pkg''"
             "PyObj ''pkg'' ''Oops'' (Some []) ''/home/u/pkg.py'' 7" "[]"] h v
  have a: "\<exists>datam. create_datam app0 None ''pkg'' ''pkg.Oops'' ''exception''
               (PyObj ''pkg'' ''Oops'' (Some []) ''/home/u/pkg.py'' 7) [] = Inr (datam, app0) \<and>
            d_type datam = ''Class''"
    by auto
  from type_mapping_lookup_succeeds
         [of "''widget''" "''pkg.w''" app0 None "''pkg''"
             "PyObj ''pkg'' ''w'' None ''/home/u/pkg.py'' 7" "[]"] k
  have b: "create_datam app0 None ''pkg'' ''pkg.w'' ''widget''
     (PyObj ''pkg'' ''w'' None ''/home/u/pkg.py'' 7) [] = Inl KeyError"
    by blast
  from h v a b k show ?thesis by blast
qed

text \<open>
  Claim C7. The owning class and module by kind: for a function, an exception or a
  class the module is all but the last dotted segment and there is no class; for a
  method or an attribute the class is all but the last segment and the module all but
  the last two; for a module it is the name; for any other kind both are \<^verbatim>\<open>None\<close>.
  When the module is \<^verbatim>\<open>None\<close> or empty, \<^verbatim>\<open>process_docstring\<close> returns normally, the registry
  is unchanged and the line \<^verbatim>\<open>Unknown Type\<close> is printed.
\<close>

theorem owning_pair_by_kind:
  "(ty \<in> {''function'', ''exception'', ''class''} \<longrightarrow>
      get_cls_module ty name =
        (None, Some (str_join ''.'' (butlast (str_split (CHR ''.'') name))))) \<and>
   (ty \<in> {''method'', ''attribute''} \<longrightarrow>
      get_cls_module ty name =
        (Some (str_join ''.'' (butlast (str_split (CHR ''.'') name))),
         Some (str_join ''.'' (butlast (butlast (str_split (CHR ''.'') name)))))) \<and>
   (ty = ''module'' \<longrightarrow> get_cls_module ty name = (None, Some name)) \<and>
   (ty \<notin> {''function'', ''exception'', ''class'', ''method'', ''attribute'', ''module''} \<longrightarrow>
      get_cls_module ty name = (None, None)) \<and>
   (\<not> truthy_str (snd (get_cls_module ty name)) \<longrightarrow>
      process_docstring ap ty name obj lines =
        Inr (ap\<lparr>printed := printed ap @ [''Unknown Type: '' @ ty]\<rparr>))"
  by (auto simp: get_cls_module_def slice_to_m1_butlast slice_to_m2_butlast process_docstring_def truthy_str_def split: option.splits)

theorem owning_pair_by_kind_witness:
  "get_cls_module ''function'' ''pkg.mod.f'' = (None, Some ''pkg.mod'') \<and>
   get_cls_module ''method'' ''pkg.mod.C.f'' = (Some ''pkg.mod.C'', Some ''pkg.mod'') \<and>
   get_cls_module ''module'' ''pkg.mod'' = (None, Some ''pkg.mod'') \<and>
   get_cls_module ''widget'' ''pkg.w'' = (None, None) \<and>
   \<not> truthy_str (snd (get_cls_module ''widget'' ''pkg.w'')) \<and>
   process_docstring app0 ''widget'' ''pkg.w'' (PyObj ''pkg'' ''w'' None ''/home/u/pkg.py'' 7) [] =
     Inr (app0\<lparr>printed := [''Unknown Type: widget'']\<rparr>)"
proof -
  have a: "get_cls_module ''function'' ''pkg.mod.f'' = (None, Some ''pkg.mod'')"
    using owning_pair_by_kind [of "''function''" "''pkg.mod.f''"] by simp
  have b: "get_cls_module ''method'' ''pkg.mod.C.f'' = (Some ''pkg.mod.C'', Some ''pkg.mod'')"
    using owning_pair_by_kind [of "''method''" "''pkg.mod.C.f''"] by simp
  have c: "get_cls_module ''module'' ''pkg.mod'' = (None, Some ''pkg.mod'')"
    using owning_pair_by_kind [of "''module''" "''pkg.mod''"] by simp
  have d: "get_cls_module ''widget'' ''pkg.w'' = (None, None)"
    using owning_pair_by_kind [of "''widget''" "''pkg.w''"] by simp
  have e: "\<not> truthy_str (snd (get_cls_module ''widget'' ''pkg.w''))"
    using d by (simp add: truthy_str_def)
  have f: "process_docstring app0 ''widget'' ''pkg.w'' (PyObj ''pkg'' ''w'' None ''/home/u/pkg.py'' 7) [] =
     Inr (app0\<lparr>printed := [''Unknown Type: widget'']\<rparr>)"
    using owning_pair_by_kind [of "''widget''" "''pkg.w''" app0 "PyObj ''pkg'' ''w'' None ''/home/u/pkg.py'' 7" "[]"] e
    by (simp add: app0_def)
  from a b c d e f show ?thesis by blast
qed

section \<open>Properties of the hierarchy linker and the inheritance resolver\<close>

lemma matches_utype: "matches ty datam obj \<Longrightarrow> d_utype obj \<in> set [''class'', ''module'']"
  by (auto simp: matches_def rule_member_def rule_function_def rule_class_def split: if_splits)

lemma loop_shape:
  "insert_children_loop ty datam objs = Inr objs' \<Longrightarrow>
     (objs' = objs \<and> (\<forall>obj \<in> set objs. \<not> matches ty datam obj)) \<or>
     (\<exists>pre obj cs post. objs = pre @ obj # post \<and>
        (\<forall>p \<in> set pre. \<not> matches ty datam p) \<and> matches ty datam obj \<and>
        d_children obj = Some cs \<and>
        objs' = pre @ obj\<lparr>d_children := Some (cs @ [d_uid datam])\<rparr> # post)"
proof (induction objs arbitrary: objs')
  case Nil
  then show ?case by simp
next
  case (Cons a objs)
  from Cons.prems obtain b1 where b1: "rule_member ty datam a = Inr b1"
    by (cases "rule_member ty datam a") auto
  show ?case
  proof (cases "matches ty datam a")
    case True
    with b1 have m: "b1 \<or> rule_function ty datam a \<or> rule_class ty datam a"
      by (auto simp: matches_def)
    with Cons.prems b1 obtain cs where cs: "d_children a = Some cs"
      and r: "objs' = a\<lparr>d_children := Some (cs @ [d_uid datam])\<rparr> # objs"
      by (auto simp: append_child_def split: option.splits)
    have "a # objs = [] @ a # objs \<and> (\<forall>p \<in> set []. \<not> matches ty datam p) \<and>
          matches ty datam a \<and> d_children a = Some cs \<and>
          objs' = [] @ a\<lparr>d_children := Some (cs @ [d_uid datam])\<rparr> # objs"
      using True cs r by simp
    then show ?thesis by blast
  next
    case False
    with b1 have nm: "\<not> (b1 \<or> rule_function ty datam a \<or> rule_class ty datam a)"
      by (auto simp: matches_def)
    with Cons.prems b1 obtain rest' where rest: "insert_children_loop ty datam objs = Inr rest'"
      and r: "objs' = a # rest'"
      by (auto split: sum.splits)
    from Cons.IH [OF rest] show ?thesis
    proof
      assume "rest' = objs \<and> (\<forall>obj \<in> set objs. \<not> matches ty datam obj)"
      with False r show ?thesis by simp
    next
      assume "\<exists>pre obj cs post. objs = pre @ obj # post \<and>
        (\<forall>p \<in> set pre. \<not> matches ty datam p) \<and> matches ty datam obj \<and>
        d_children obj = Some cs \<and>
        rest' = pre @ obj\<lparr>d_children := Some (cs @ [d_uid datam])\<rparr> # post"
      then obtain pre obj cs post where h: "objs = pre @ obj # post"
        "\<forall>p \<in> set pre. \<not> matches ty datam p" "matches ty datam obj"
        "d_children obj = Some cs"
        "rest' = pre @ obj\<lparr>d_children := Some (cs @ [d_uid datam])\<rparr> # post"
        by blast
      have "a # objs = (a # pre) @ obj # post \<and>
          (\<forall>p \<in> set (a # pre). \<not> matches ty datam p) \<and>
          matches ty datam obj \<and> d_children obj = Some cs \<and>
          objs' = (a # pre) @ obj\<lparr>d_children := Some (cs @ [d_uid datam])\<rparr> # post"
        using h False r by simp
      then show ?thesis by blast
    qed
  qed
qed

lemma rule_member_total:
  "(ty \<in> set [''method'', ''attribute''] \<longrightarrow> d_class datam \<noteq> None) \<Longrightarrow>
     \<exists>b. rule_member ty datam obj = Inr b"
  by (cases "d_class datam") (auto simp: rule_member_def)

lemma loop_total:
  "linkable ty datam objs \<Longrightarrow> \<exists>objs'. insert_children_loop ty datam objs = Inr objs'"
proof (induction objs)
  case Nil
  then show ?case by simp
next
  case (Cons a objs)
  then have IH: "\<exists>objs'. insert_children_loop ty datam objs = Inr objs'"
    by (simp add: linkable_def)
  from Cons.prems have "\<exists>b. rule_member ty datam a = Inr b"
    by (intro rule_member_total) (simp add: linkable_def)
  then obtain b1 where b1: "rule_member ty datam a = Inr b1" ..
  show ?case
  proof (cases "b1 \<or> rule_function ty datam a \<or> rule_class ty datam a")
    case True
    with b1 have "matches ty datam a" by (auto simp: matches_def)
    then have "d_utype a \<in> set [''class'', ''module'']" by (rule matches_utype)
    with Cons.prems obtain cs where "d_children a = Some cs"
      by (auto simp: linkable_def)
    with True b1 show ?thesis by (simp add: append_child_def)
  next
    case False
    with b1 IH show ?thesis by auto
  qed
qed

lemma occurrences_append:
  "occurrences u (xs @ ys) = occurrences u xs + occurrences u ys"
  by (simp add: occurrences_def)

lemma occurrences_appended:
  "d_children obj = Some cs \<Longrightarrow>
   occurrences u (pre @ obj\<lparr>d_children := Some (cs @ [u])\<rparr> # post) =
     Suc (occurrences u (pre @ obj # post))"
  by (simp add: occurrences_def children_of_def)

text \<open>
  Claim C2. On a linkable list \<^verbatim>\<open>insert_children\<close> returns, and only the list of the new
  record's module changes: either no record matches and the list is unchanged, or the
  identifier of the new record is appended to the children of the first matching record
  and every other record stays as it is. So the identifier gains at most one occurrence
  in the children lists.
\<close>

theorem insert_children_first_match:
  assumes reg: "docfx_yaml_modules ap (d_module datam) = Some objs"
    and wf: "linkable ty datam objs"
  shows "\<exists>objs'. insert_children ap ty datam =
            Inr (ap\<lparr>docfx_yaml_modules := (docfx_yaml_modules ap)(d_module datam \<mapsto> objs')\<rparr>) \<and>
          ((objs' = objs \<and> (\<forall>obj \<in> set objs. \<not> matches ty datam obj)) \<or>
           (\<exists>pre obj cs post. objs = pre @ obj # post \<and>
              (\<forall>p \<in> set pre. \<not> matches ty datam p) \<and> matches ty datam obj \<and>
              d_children obj = Some cs \<and>
              objs' = pre @ obj\<lparr>d_children := Some (cs @ [d_uid datam])\<rparr> # post)) \<and>
          occurrences (d_uid datam) objs' \<le> Suc (occurrences (d_uid datam) objs)"
proof -
  from loop_total [OF wf] obtain objs' where l: "insert_children_loop ty datam objs = Inr objs'" ..
  have sh: "(objs' = objs \<and> (\<forall>obj \<in> set objs. \<not> matches ty datam obj)) \<or>
           (\<exists>pre obj cs post. objs = pre @ obj # post \<and>
              (\<forall>p \<in> set pre. \<not> matches ty datam p) \<and> matches ty datam obj \<and>
              d_children obj = Some cs \<and>
              objs' = pre @ obj\<lparr>d_children := Some (cs @ [d_uid datam])\<rparr> # post)"
    using l by (rule loop_shape)
  have oc: "occurrences (d_uid datam) objs' \<le> Suc (occurrences (d_uid datam) objs)"
    using sh by (auto simp: occurrences_appended)
  have "insert_children ap ty datam =
            Inr (ap\<lparr>docfx_yaml_modules := (docfx_yaml_modules ap)(d_module datam \<mapsto> objs')\<rparr>)"
    using reg l by (simp add: insert_children_def)
  with sh oc show ?thesis by blast
qed

theorem insert_children_first_match_witness:
  "docfx_yaml_modules app1 (d_module bar) = Some pkg_records \<and>
   linkable ''method'' bar pkg_records \<and>
   (\<exists>objs'. insert_children app1 ''method'' bar =
            Inr (app1\<lparr>docfx_yaml_modules := (docfx_yaml_modules app1)(d_module bar \<mapsto> objs')\<rparr>) \<and>
          ((objs' = pkg_records \<and> (\<forall>obj \<in> set pkg_records. \<not> matches ''method'' bar obj)) \<or>
           (\<exists>pre obj cs post. pkg_records = pre @ obj # post \<and>
              (\<forall>p \<in> set pre. \<not> matches ''method'' bar p) \<and> matches ''method'' bar obj \<and>
              d_children obj = Some cs \<and>
              objs' = pre @ obj\<lparr>d_children := Some (cs @ [d_uid bar])\<rparr> # post)) \<and>
          occurrences (d_uid bar) objs' \<le> Suc (occurrences (d_uid bar) pkg_records))"
proof -
  have h1: "docfx_yaml_modules app1 (d_module bar) = Some pkg_records"
    by (simp add: app1_def bar_def mk_record_def)
  have h2: "linkable ''method'' bar pkg_records"
    by (simp add: linkable_def pkg_records_def bar_def mk_record_def)
  show ?thesis
    using h1 h2 insert_children_first_match [OF h1 h2] by (intro conjI)
qed

lemma insert_inheritance_dfs:
  "insert_inheritance obj datam =
     Inr (case obj_bases obj of
            None \<Rightarrow> datam
          | Some bases \<Rightarrow>
              datam\<lparr>d_inheritance := Some (inheritance_of datam @ dfs_ancestors obj)\<rparr>)"
  "d_inheritance datam = Some inh \<Longrightarrow>
   insert_inheritance_bases bases datam =
     Inr (datam\<lparr>d_inheritance := Some (inh @ dfs_ancestors_bases bases)\<rparr>)"
proof (induction obj datam and bases datam arbitrary: and inh
       rule: insert_inheritance_insert_inheritance_bases.induct)
  case (1 m n bs sf sl datam)
  show ?case
  proof (cases bs)
    case None
    then show ?thesis by simp
  next
    case (Some bases)
    show ?thesis
    proof (cases "d_inheritance datam")
      case None
      have "insert_inheritance_bases bases (datam\<lparr>d_inheritance := Some []\<rparr>) =
              Inr (datam\<lparr>d_inheritance := Some []\<rparr>
                     \<lparr>d_inheritance := Some ([] @ dfs_ancestors_bases bases)\<rparr>)"
        using "1.IH" [OF Some, of "[]"] None by simp
      with Some None show ?thesis by (simp add: inheritance_of_def)
    next
      case (Some inh)
      have "insert_inheritance_bases bases datam =
              Inr (datam\<lparr>d_inheritance := Some (inh @ dfs_ancestors_bases bases)\<rparr>)"
        using "1.IH" [OF \<open>bs = Some bases\<close>, of inh] Some by simp
      with \<open>bs = Some bases\<close> Some show ?thesis by (simp add: inheritance_of_def)
    qed
  qed
next
  case (2 datam)
  then show ?case by simp
next
  case (3 base rest datam)
  let ?d1 = "datam\<lparr>d_inheritance := Some (inh @ [fullname base])\<rparr>"
  have a: "insert_inheritance base ?d1 =
     Inr (case obj_bases base of
            None \<Rightarrow> ?d1
          | Some bases \<Rightarrow>
              ?d1\<lparr>d_inheritance := Some (inheritance_of ?d1 @ dfs_ancestors base)\<rparr>)"
    using "3.IH"(1) [OF "3.prems"] .
  obtain m n bs sf sl where base: "base = PyObj m n bs sf sl" by (cases base)
  let ?d2 = "datam\<lparr>d_inheritance := Some (inh @ [fullname base] @ dfs_ancestors base)\<rparr>"
  have b: "insert_inheritance base ?d1 = Inr ?d2"
    using a base by (cases bs) (simp_all add: inheritance_of_def)
  have c: "insert_inheritance_bases rest ?d2 =
     Inr (?d2\<lparr>d_inheritance := Some ((inh @ [fullname base] @ dfs_ancestors base) @ dfs_ancestors_bases rest)\<rparr>)"
    using "3.IH"(2) [OF "3.prems" b, of "inh @ [fullname base] @ dfs_ancestors base"] by simp
  show ?case using "3.prems" b c by simp
qed

text \<open>
  Claim C6. For an object with bases \<^verbatim>\<open>insert_inheritance\<close> appends to the record's
  inheritance list the full names of all ancestors in depth-first order over the
  declared bases. For the chain of bases A, B, C the list of a record without earlier
  entries is the full names of A, B and C in this order.
\<close>

theorem inheritance_flattened_depth_first:
  "(obj_bases obj \<noteq> None \<longrightarrow>
      insert_inheritance obj datam =
        Inr (datam\<lparr>d_inheritance := Some (inheritance_of datam @ dfs_ancestors obj)\<rparr>)) \<and>
   (d_inheritance datam = None \<longrightarrow>
      insert_inheritance
        (PyObj mx nx (Some [PyObj ma na (Some [PyObj mb nb (Some [PyObj mc nc (Some []) sc lc])
                                                 sb lb]) sa la]) sx lx) datam =
        Inr (datam\<lparr>d_inheritance :=
                    Some [ma @ ''.'' @ na, mb @ ''.'' @ nb, mc @ ''.'' @ nc]\<rparr>))"
proof (intro conjI impI)
  assume "obj_bases obj \<noteq> None"
  then show "insert_inheritance obj datam =
        Inr (datam\<lparr>d_inheritance := Some (inheritance_of datam @ dfs_ancestors obj)\<rparr>)"
    using insert_inheritance_dfs(1) [of obj datam] by auto
next
  assume n: "d_inheritance datam = None"
  let ?x = "PyObj mx nx (Some [PyObj ma na (Some [PyObj mb nb (Some [PyObj mc nc (Some []) sc lc])
                                                 sb lb]) sa la]) sx lx"
  have "insert_inheritance ?x datam =
        Inr (datam\<lparr>d_inheritance := Some (inheritance_of datam @ dfs_ancestors ?x)\<rparr>)"
    using insert_inheritance_dfs(1) [of ?x datam] by simp
  then show "insert_inheritance ?x datam =
        Inr (datam\<lparr>d_inheritance :=
                    Some [ma @ ''.'' @ na, mb @ ''.'' @ nb, mc @ ''.'' @ nc]\<rparr>)"
    using n by (simp add: inheritance_of_def fullname_def)
qed

theorem inheritance_flattened_depth_first_witness:
  "obj_bases (class_obj ''pkg'' ''X'' [class_obj ''pkg'' ''A'' [class_obj ''pkg'' ''B'' [class_obj ''base'' ''C'' []]]]) \<noteq> None \<and>
   d_inheritance bar = None \<and>
   insert_inheritance
     (class_obj ''pkg'' ''X'' [class_obj ''pkg'' ''A'' [class_obj ''pkg'' ''B'' [class_obj ''base'' ''C'' []]]]) bar =
     Inr (bar\<lparr>d_inheritance := Some [''pkg.A'', ''pkg.B'', ''base.C'']\<rparr>) \<and>
   dfs_ancestors (class_obj ''pkg'' ''X'' [class_obj ''pkg'' ''A'' [class_obj ''pkg'' ''B'' [class_obj ''base'' ''C'' []]]]) =
     [''pkg.A'', ''pkg.B'', ''base.C'']"
proof -
  let ?x = "class_obj ''pkg'' ''X'' [class_obj ''pkg'' ''A'' [class_obj ''pkg'' ''B'' [class_obj ''base'' ''C'' []]]]"
  have h1: "obj_bases ?x \<noteq> None" by (simp add: class_obj_def)
  have h2: "d_inheritance bar = None" by (simp add: bar_def mk_record_def)
  have d: "dfs_ancestors ?x = [''pkg.A'', ''pkg.B'', ''base.C'']"
    by (simp add: class_obj_def fullname_def)
  have "insert_inheritance ?x bar =
          Inr (bar\<lparr>d_inheritance := Some (inheritance_of bar @ dfs_ancestors ?x)\<rparr>)"
    using inheritance_flattened_depth_first [of ?x bar] h1 by blast
  then have r: "insert_inheritance ?x bar =
     Inr (bar\<lparr>d_inheritance := Some [''pkg.A'', ''pkg.B'', ''base.C'']\<rparr>)"
    using h2 d by (simp add: inheritance_of_def)
  from h1 h2 r d show ?thesis by (intro conjI)
qed

text \<open>
  Claim C1, at the events of the module \<^verbatim>\<open>pkg.sub\<close> and its function \<^verbatim>\<open>pkg.sub.f\<close>: the name
  of the holder record is \<^verbatim>\<open>sub.Global\<close>, the linker looks for the name \<^verbatim>\<open>pkg.sub.Global\<close>,
  and the identifier of the function is appended to no children list.
\<close>

theorem function_in_dotted_module_not_linked:
  "ebind (process_events app0
            [(''module'', ''pkg.sub'', obj_of ''pkg'' ''sub''),
             (''function'', ''pkg.sub.f'', obj_of ''pkg.sub'' ''f'')])
         (\<lambda>a. Inr (links a ''pkg.sub'')) =
   Inr (Some [(''pkg.sub'', Some []), (''pkg.sub.Global'', Some []), (''pkg.sub.f'', None)])"
  by code_simp

section \<open>Properties of the field data normalizer\<close>

lemma map_of_dict_set:
  "map_of (dict_set k v d) k' = (if k' = k then Some v else map_of d k')"
  by (induction d) auto

lemma mk_data_eq [simp]:
  "mk_data ps vs es r = mk_data ps' vs' es' r' \<longleftrightarrow> ps = ps' \<and> vs = vs' \<and> es = es' \<and> r = r'"
  by (auto simp: mk_data_def)

lemma ebind_Inr [simp]: "ebind (Inr x) f = f x"
  by (simp add: ebind_def)

lemma ebind_Inl [simp]: "ebind (Inl e) f = Inl e"
  by (simp add: ebind_def)

lemma efold_append: "efold f (xs @ ys) s = ebind (efold f xs s) (efold f ys)"
  by (induction xs arbitrary: s) (auto simp: ebind_def split: sum.splits)

lemma add_exception_mk:
  "snd e \<noteq> [] \<Longrightarrow>
   \<exists>es'. add_exception tn e (mk_data ps vs es r) = Inr (mk_data ps vs es' r)"
  by (cases "snd e") (simp_all add: add_exception_def index_0_def append_at_def mk_data_def)

lemma add_exceptions_mk:
  "list_all (\<lambda>f. snd f \<noteq> []) c \<Longrightarrow>
   \<exists>es'. efold (add_exception tn) c (mk_data ps vs es r) = Inr (mk_data ps vs es' r)"
proof (induction c arbitrary: es)
  case Nil
  then show ?case by auto
next
  case (Cons e c)
  then obtain es1 where "add_exception tn e (mk_data ps vs es r) = Inr (mk_data ps vs es1 r)"
    using add_exception_mk [of e tn ps vs es r] by auto
  moreover from Cons.IH [of es1] Cons.prems obtain es2 where
    "efold (add_exception tn) c (mk_data ps vs es1 r) = Inr (mk_data ps vs es2 r)"
    by auto
  ultimately show ?case by auto
qed

lemma add_return_type_mk:
  "type_inv r cands \<Longrightarrow>
   \<exists>r'. add_return_type c (mk_data ps vs es r) = Inr (mk_data ps vs es r') \<and>
        type_inv r' (cands @ [return_candidate c]) \<and>
        map_of r' ''description'' = map_of r ''description''"
  by (cases "cands = []")
     (simp_all add: add_return_type_def mk_data_def type_inv_def setdefault_append_def
        map_of_dict_set Let_def return_candidate_def)

lemma add_return_types_mk:
  "type_inv r cands \<Longrightarrow>
   \<exists>r'. efold add_return_type cs (mk_data ps vs es r) = Inr (mk_data ps vs es r') \<and>
        type_inv r' (cands @ map return_candidate cs) \<and>
        map_of r' ''description'' = map_of r ''description''"
proof (induction cs arbitrary: r cands)
  case Nil
  then show ?case by auto
next
  case (Cons c cs)
  let ?n = "return_candidate c"
  from add_return_type_mk [OF Cons.prems, of c ps vs es]
  obtain r1 where a: "add_return_type c (mk_data ps vs es r) = Inr (mk_data ps vs es r1)"
    and b: "type_inv r1 (cands @ [?n])"
    and c: "map_of r1 ''description'' = map_of r ''description''"
    by auto
  from Cons.IH [OF b] obtain r2 where
    d: "efold add_return_type cs (mk_data ps vs es r1) = Inr (mk_data ps vs es r2)"
    and e: "type_inv r2 ((cands @ [?n]) @ map return_candidate cs)"
    and f: "map_of r2 ''description'' = map_of r1 ''description''"
    by auto
  show ?case using a c d e f by auto
qed

lemma add_returntype_node_mk:
  "type_inv r cands \<Longrightarrow>
   \<exists>r'. add_returntype_node tn n (mk_data ps vs es r) = Inr (mk_data ps vs es r') \<and>
        type_inv r' (cands @ concat (map return_candidates (nonempty [tn n]))) \<and>
        map_of r' ''description'' = map_of r ''description''"
  using add_return_types_mk [of r cands "re_split_or (tn n)" ps vs es]
  by (auto simp: add_returntype_node_def nonempty_def return_candidates_def Let_def)

lemma add_returntype_nodes_mk:
  "type_inv r cands \<Longrightarrow>
   \<exists>r'. efold (add_returntype_node tn) nodes (mk_data ps vs es r) = Inr (mk_data ps vs es r') \<and>
        type_inv r' (cands @ concat (map return_candidates (nonempty (map tn nodes)))) \<and>
        map_of r' ''description'' = map_of r ''description''"
proof (induction nodes arbitrary: r cands)
  case Nil
  then show ?case by (auto simp: nonempty_def)
next
  case (Cons n nodes)
  from add_returntype_node_mk [OF Cons.prems, of tn n ps vs es]
  obtain r1 where a: "add_returntype_node tn n (mk_data ps vs es r) = Inr (mk_data ps vs es r1)"
    and b: "type_inv r1 (cands @ concat (map return_candidates (nonempty [tn n])))"
    and c: "map_of r1 ''description'' = map_of r ''description''"
    by auto
  from Cons.IH [OF b] obtain r2 where
    d: "efold (add_returntype_node tn) nodes (mk_data ps vs es r1) = Inr (mk_data ps vs es r2)"
    and e: "type_inv r2 ((cands @ concat (map return_candidates (nonempty [tn n]))) @ concat (map return_candidates (nonempty (map tn nodes))))"
    and f: "map_of r2 ''description'' = map_of r1 ''description''"
    by auto
  show ?case using a c d e f by (auto simp: nonempty_def)
qed

lemma set_return_description_mk:
  "nodes \<noteq> [] \<Longrightarrow> type_inv r cands \<Longrightarrow>
   \<exists>r'. set_return_description tn nodes (mk_data ps vs es r) = Inr (mk_data ps vs es r') \<and>
        type_inv r' cands \<and>
        map_of r' ''description'' =
          (if tn (hd nodes) \<noteq> [] then Some (PStr (tn (hd nodes))) else map_of r ''description'')"
  by (cases nodes)
     (simp_all add: set_return_description_def index_0_def mk_data_def type_inv_def
        map_of_dict_set Let_def)

lemma add_field_mk:
  "snd f \<noteq> [] \<Longrightarrow> name \<in> set [''parameter'', ''variable''] \<Longrightarrow>
   \<exists>ps' vs'. add_field tn name fieldtypes f (mk_data ps vs es r) = Inr (mk_data ps' vs' es r)"
  by (cases "snd f")
     (auto simp: add_field_def index_0_def append_at_def mk_data_def Let_def)

lemma add_fields_mk:
  "list_all (\<lambda>f. snd f \<noteq> []) c \<Longrightarrow> name \<in> set [''parameter'', ''variable''] \<Longrightarrow>
   \<exists>ps' vs'. efold (add_field tn name fieldtypes) c (mk_data ps vs es r) =
              Inr (mk_data ps' vs' es r)"
proof (induction c arbitrary: ps vs)
  case Nil
  then show ?case by auto
next
  case (Cons f c)
  then obtain ps1 vs1 where
    "add_field tn name fieldtypes f (mk_data ps vs es r) = Inr (mk_data ps1 vs1 es r)"
    using add_field_mk [of f name tn fieldtypes ps vs es r] by auto
  moreover from Cons.IH [of ps1 vs1] Cons.prems obtain ps2 vs2 where
    "efold (add_field tn name fieldtypes) c (mk_data ps1 vs1 es r) = Inr (mk_data ps2 vs2 es r)"
    by auto
  ultimately show ?case by auto
qed

lemma add_raises_mk:
  "\<exists>es'. efold add_raises ts (mk_data ps vs es r) = Inr (mk_data ps vs es' r)"
proof (induction ts arbitrary: es)
  case Nil
  then show ?case by auto
next
  case (Cons t ts)
  have "add_raises t (mk_data ps vs es r) =
          Inr (mk_data ps vs (es @ [PDict [(''type'', PStr t)]]) r)"
    by (simp add: add_raises_def setdefault_append_def mk_data_def)
  with Cons show ?case by auto
qed

lemma last_of_append: "last_of (last_of d xs) ys = last_of d (xs @ ys)"
  by (simp add: last_of_def)

lemma returnvalue_texts_other:
  "name \<noteq> ''returnvalue'' \<Longrightarrow> entry_returnvalue_texts tn (Entry name content) = []"
  by (cases "(tn, Entry name content)" rule: entry_returnvalue_texts.cases) auto

lemma process_entry_mk:
  assumes wf: "wf_entry e" and ro: "raises_ok fo" and ti: "type_inv r cands"
  shows "\<exists>ps' vs' es' r'.
           process_entry tn types fo e (mk_data ps vs es r) = Inr (mk_data ps' vs' es' r') \<and>
           type_inv r' (cands @ concat (map return_candidates
                                         (nonempty (entry_returntype_texts tn e)))) \<and>
           map_of r' ''description'' =
             last_of (map_of r ''description'') (nonempty (entry_returnvalue_texts tn e))"
proof (cases e)
  case (FieldNode n)
  with ti show ?thesis by (auto simp: process_entry_def nonempty_def last_of_def)
next
  case (Entry name content)
  show ?thesis
  proof (cases content)
    case (Single arg nodes)
    with wf Entry have n1: "name \<noteq> ''exceptions''" "name \<noteq> ''parameter''" "name \<noteq> ''variable''"
      and n2: "name = ''returnvalue'' \<longrightarrow> nodes \<noteq> []"
      by auto
    show ?thesis
    proof (cases "name = ''returntype''")
      case True
      from add_returntype_nodes_mk [OF ti, of tn nodes ps vs es]
      obtain r' where "efold (add_returntype_node tn) nodes (mk_data ps vs es r) =
                         Inr (mk_data ps vs es r')"
        and "type_inv r' (cands @ concat (map return_candidates (nonempty (map tn nodes))))"
        and "map_of r' ''description'' = map_of r ''description''"
        by auto
      with True Entry Single show ?thesis
        by (auto simp: process_entry_def last_of_def nonempty_def returnvalue_texts_other)
    next
      case nrt: False
      show ?thesis
      proof (cases "name = ''returnvalue''")
        case True
        with n2 have ne: "nodes \<noteq> []" by simp
        then obtain n ns where nodes: "nodes = n # ns" by (cases nodes) auto
        from set_return_description_mk [OF ne ti, of tn ps vs es]
        obtain r' where "set_return_description tn nodes (mk_data ps vs es r) =
                           Inr (mk_data ps vs es r')"
          and "type_inv r' cands"
          and "map_of r' ''description'' =
                 (if tn (hd nodes) \<noteq> [] then Some (PStr (tn (hd nodes)))
                  else map_of r ''description'')"
          by auto
        with True Entry Single nodes show ?thesis
          by (auto simp: process_entry_def last_of_def nonempty_def)
      next
        case False
        with nrt n1 Entry Single ti show ?thesis
          by (auto simp: process_entry_def last_of_def nonempty_def returnvalue_texts_other)
      qed
    qed
  next
    case (Group c)
    with wf Entry have n1: "name \<noteq> ''returntype''" "name \<noteq> ''returnvalue''"
      and n2: "name \<in> set [''exceptions'', ''parameter'', ''variable''] \<longrightarrow>
                 list_all (\<lambda>f. snd f \<noteq> []) c"
      by auto
    have obs: "nonempty (entry_returntype_texts tn e) = []"
              "nonempty (entry_returnvalue_texts tn e) = []"
      using Entry Group by (simp_all add: nonempty_def)
    show ?thesis
    proof (cases "name = ''exceptions''")
      case True
      with n2 have "list_all (\<lambda>f. snd f \<noteq> []) c" by simp
      from add_exceptions_mk [OF this, of tn ps vs es r]
      obtain es' where "efold (add_exception tn) c (mk_data ps vs es r) =
                          Inr (mk_data ps vs es' r)" by auto
      with True Entry Group ti obs show ?thesis
        by (auto simp: process_entry_def last_of_def)
    next
      case nex: False
      show ?thesis
      proof (cases "name \<in> set [''parameter'', ''variable'']")
        case True
        with n2 have la: "list_all (\<lambda>f. snd f \<noteq> []) c" by auto
        from add_fields_mk [OF la True, of tn "case map_of types name of None \<Rightarrow> [] | Some ft \<Rightarrow> ft" ps vs es r]
        obtain ps' vs' where a: "efold (add_field tn name
                                   (case map_of types name of None \<Rightarrow> [] | Some ft \<Rightarrow> ft))
                                   c (mk_data ps vs es r) = Inr (mk_data ps' vs' es r)"
          by auto
        from ro obtain ts where b: "extract_exception_desc fo = Inr ts"
          by (auto simp: raises_ok_def split: sum.splits)
        from add_raises_mk [of ts ps' vs' es r]
        obtain es' where c: "efold add_raises ts (mk_data ps' vs' es r) =
                               Inr (mk_data ps' vs' es' r)" by auto
        have "process_entry tn types fo e (mk_data ps vs es r) = Inr (mk_data ps' vs' es' r)"
          using True nex n1 Entry Group a b c by (simp add: process_entry_def)
        with ti obs show ?thesis by (auto simp: last_of_def)
      next
        case False
        with nex n1 Entry Group have
          "process_entry tn types fo e (mk_data ps vs es r) = Inr (mk_data ps vs es r)"
          by (simp add: process_entry_def)
        with ti obs show ?thesis by (auto simp: last_of_def)
      qed
    qed
  qed
qed

lemma entries_mk:
  assumes ro: "raises_ok fo"
  shows "list_all wf_entry entries \<Longrightarrow> type_inv r cands \<Longrightarrow>
         \<exists>ps' vs' es' r'.
           efold (process_entry tn types fo) entries (mk_data ps vs es r) =
             Inr (mk_data ps' vs' es' r') \<and>
           type_inv r' (cands @ concat (map return_candidates
                                         (nonempty (returntype_texts tn entries)))) \<and>
           map_of r' ''description'' =
             last_of (map_of r ''description'') (nonempty (returnvalue_texts tn entries))"
proof (induction entries arbitrary: ps vs es r cands)
  case Nil
  then show ?case
    by (auto simp: returntype_texts_def returnvalue_texts_def nonempty_def last_of_def)
next
  case (Cons e entries)
  from Cons.prems have wf: "wf_entry e" and wfs: "list_all wf_entry entries" by simp_all
  let ?c1 = "concat (map return_candidates (nonempty (entry_returntype_texts tn e)))"
  from process_entry_mk [OF wf ro Cons.prems(2), of tn types ps vs es]
  obtain ps1 vs1 es1 r1 where
    a: "process_entry tn types fo e (mk_data ps vs es r) = Inr (mk_data ps1 vs1 es1 r1)"
    and b: "type_inv r1 (cands @ ?c1)"
    and c: "map_of r1 ''description'' =
              last_of (map_of r ''description'') (nonempty (entry_returnvalue_texts tn e))"
    by auto
  from Cons.IH [OF wfs b, of ps1 vs1 es1]
  obtain ps2 vs2 es2 r2 where
    d: "efold (process_entry tn types fo) entries (mk_data ps1 vs1 es1 r1) =
          Inr (mk_data ps2 vs2 es2 r2)"
    and e: "type_inv r2 ((cands @ ?c1) @ concat (map return_candidates
                                         (nonempty (returntype_texts tn entries))))"
    and f: "map_of r2 ''description'' =
              last_of (map_of r1 ''description'') (nonempty (returnvalue_texts tn entries))"
    by auto
  have g: "efold (process_entry tn types fo) (e # entries) (mk_data ps vs es r) =
             Inr (mk_data ps2 vs2 es2 r2)"
    using a d by simp
  have h: "type_inv r2 (cands @ concat (map return_candidates
                                         (nonempty (returntype_texts tn (e # entries)))))"
    using e by (simp add: returntype_texts_def nonempty_def)
  have i: "map_of r2 ''description'' =
             last_of (map_of r ''description'') (nonempty (returnvalue_texts tn (e # entries)))"
    using f c by (simp add: returnvalue_texts_def nonempty_def last_of_append)
  from g h i show ?case by blast
qed

lemma initial_mk: "initial_data = mk_data [] [] [] []"
  by (simp add: initial_data_def mk_data_def)

lemma return_type_mk: "return_type (mk_data ps vs es r) = map_of r ''type''"
  by (simp add: return_type_def return_of_def mk_data_def)

lemma return_description_mk: "return_description (mk_data ps vs es r) = map_of r ''description''"
  by (simp add: return_description_def return_of_def mk_data_def)

text \<open>
  Claim C5, as amended. On entries of the parser's shape \<^verbatim>\<open>get_data_structure\<close> returns,
  and \<^verbatim>\<open>return.type\<close> is the list of the candidates of the non-empty rendered texts of
  the \<^verbatim>\<open>returntype\<close> entries, in the order of the entries: each text is split at the
  separators, each piece loses one leading sigil and its trailing newlines. An entry
  whose rendered text is empty adds nothing, and without any candidate the key is
  absent.
\<close>

theorem returntype_candidates_accumulate:
  assumes "list_all wf_entry entries" and "raises_ok field_object"
  shows "\<exists>data. get_data_structure tn entries types field_object = Inr data \<and>
           return_type data =
             (let cands = concat (map return_candidates (nonempty (returntype_texts tn entries)))
              in if cands = [] then None else Some (PList (map PStr cands)))"
proof -
  have "type_inv [] []" by (simp add: type_inv_def)
  from entries_mk [OF assms(2) assms(1) this, of tn types "[]" "[]" "[]"]
  obtain ps vs es r where
    a: "efold (process_entry tn types field_object) entries (mk_data [] [] [] []) =
          Inr (mk_data ps vs es r)"
    and b: "type_inv r ([] @ concat (map return_candidates
                                       (nonempty (returntype_texts tn entries))))"
    by auto
  have "get_data_structure tn entries types field_object = Inr (mk_data ps vs es r)"
    using a by (simp add: get_data_structure_def initial_mk)
  moreover have "return_type (mk_data ps vs es r) =
             (let cands = concat (map return_candidates (nonempty (returntype_texts tn entries)))
              in if cands = [] then None else Some (PList (map PStr cands)))"
    using b by (simp add: return_type_mk type_inv_def Let_def)
  ultimately show ?thesis by blast
qed

theorem returntype_candidates_accumulate_witness:
  "list_all wf_entry rtype_entries \<and> raises_ok [] \<and>
   (\<exists>data. get_data_structure astext rtype_entries [] [] = Inr data \<and>
      return_type data = Some (PList [PStr ''int'', PStr ''str'', PStr ''mypkg.Foo'']))"
proof -
  have h1: "list_all wf_entry rtype_entries" by (simp add: rtype_entries_def)
  have h2: "raises_ok []" by (simp add: raises_ok_def)
  have c: "concat (map return_candidates (nonempty (returntype_texts astext rtype_entries))) =
             [''int'', ''str'', ''mypkg.Foo'']"
    by code_simp
  from returntype_candidates_accumulate [OF h1 h2, of astext "[]"] c
  have "\<exists>data. get_data_structure astext rtype_entries [] [] = Inr data \<and>
      return_type data = Some (PList [PStr ''int'', PStr ''str'', PStr ''mypkg.Foo''])"
    by simp
  with h1 h2 show ?thesis by blast
qed

text \<open>
  Claim C5 as stated fails on a \<^verbatim>\<open>returntype\<close> entry whose rendered text is empty: the
  split of the empty text is the one empty candidate, and the code appends nothing.
\<close>

theorem returntype_empty_text_counterexample:
  "get_data_structure astext [Entry ''returntype'' (Single [] [text_node []])] [] [] =
     Inr (mk_data [] [] [] []) \<and>
   return_type (mk_data [] [] [] []) = None \<and>
   concat (map return_candidates
             (returntype_texts astext [Entry ''returntype'' (Single [] [text_node []])])) = [[]] \<and>
   return_type (mk_data [] [] [] []) \<noteq>
     Some (PList (map PStr (concat (map return_candidates
             (returntype_texts astext [Entry ''returntype'' (Single [] [text_node []])])))))"
  by code_simp

text \<open>
  Claim C9, as amended. On entries of the parser's shape \<^verbatim>\<open>get_data_structure\<close> returns,
  and \<^verbatim>\<open>return.description\<close> is the last non-empty rendered description of the
  \<^verbatim>\<open>returnvalue\<close> entries; without one the key is absent.
\<close>

theorem return_description_last_nonempty:
  assumes "list_all wf_entry entries" and "raises_ok field_object"
  shows "\<exists>data. get_data_structure tn entries types field_object = Inr data \<and>
           return_description data =
             (if nonempty (returnvalue_texts tn entries) = [] then None
              else Some (PStr (last (nonempty (returnvalue_texts tn entries)))))"
proof -
  have "type_inv [] []" by (simp add: type_inv_def)
  from entries_mk [OF assms(2) assms(1) this, of tn types "[]" "[]" "[]"]
  obtain ps vs es r where
    a: "efold (process_entry tn types field_object) entries (mk_data [] [] [] []) =
          Inr (mk_data ps vs es r)"
    and b: "map_of r ''description'' =
              last_of (map_of [] ''description'') (nonempty (returnvalue_texts tn entries))"
    by auto
  have "get_data_structure tn entries types field_object = Inr (mk_data ps vs es r)"
    using a by (simp add: get_data_structure_def initial_mk)
  moreover have "return_description (mk_data ps vs es r) =
             (if nonempty (returnvalue_texts tn entries) = [] then None
              else Some (PStr (last (nonempty (returnvalue_texts tn entries)))))"
    using b by (simp add: return_description_mk last_of_def)
  ultimately show ?thesis by blast
qed

theorem return_description_last_nonempty_witness:
  "list_all wf_entry rvalue_entries \<and> raises_ok [] \<and>
   (\<exists>data. get_data_structure astext rvalue_entries [] [] = Inr data \<and>
      return_description data = Some (PStr ''second''))"
proof -
  have h1: "list_all wf_entry rvalue_entries" by (simp add: rvalue_entries_def)
  have h2: "raises_ok []" by (simp add: raises_ok_def)
  have c: "nonempty (returnvalue_texts astext rvalue_entries) = [''first'', ''second'']"
    by code_simp
  from return_description_last_nonempty [OF h1 h2, of astext "[]"] c
  have "\<exists>data. get_data_structure astext rvalue_entries [] [] = Inr data \<and>
      return_description data = Some (PStr ''second'')"
    by simp
  with h1 h2 show ?thesis by blast
qed

text \<open>
  Claim C9 as stated fails when the last \<^verbatim>\<open>returnvalue\<close> entry renders to the empty
  text: the description of the entry before it stays.
\<close>

theorem return_description_empty_last_counterexample:
  "get_data_structure astext rvalue_entries [] [] =
     Inr (mk_data [] [] [] [(''description'', PStr ''second'')]) \<and>
   last (returnvalue_texts astext rvalue_entries) = [] \<and>
   return_description (mk_data [] [] [] [(''description'', PStr ''second'')]) \<noteq>
     Some (PStr (last (returnvalue_texts astext rvalue_entries)))"
  by code_simp

text \<open>
  Claim C3, at a parameter whose declared type is \<^verbatim>\<open>mypkg.Bar\<close> followed by a newline: the
  type list of the parameter keeps the newline, and the return type of the same text
  loses it.
\<close>

theorem parameter_type_keeps_newline:
  "get_data_structure astext
     [Entry ''parameter'' (Group [(''x'', [text_node ''the x value''])])]
     [(''parameter'', [(''x'', [text_node (''mypkg.Bar'' @ [CHR 0x0A])])])] [] =
   Inr (mk_data [PDict [(''id'', PStr ''x''), (''description'', PStr ''the x value''),
                        (''type'', PList [PStr (''mypkg.Bar'' @ [CHR 0x0A])])]] [] [] []) \<and>
   get_data_structure astext
     [Entry ''returntype'' (Single [] [text_node (''mypkg.Bar'' @ [CHR 0x0A])])] [] [] =
   Inr (mk_data [] [] [] [(''type'', PList [PStr ''mypkg.Bar''])])"
  by code_simp

text \<open>
  Claim C4, at a variable without a declared type: its descriptor has the key
  \<^verbatim>\<open>type\<close> with the list of the one element \<^verbatim>\<open>None\<close>. A parameter without a declared
  type has no such key.
\<close>

theorem untyped_variable_has_type_key:
  "get_data_structure astext
     [Entry ''variable'' (Group [(''v'', [text_node ''a variable''])])] [] [] =
   Inr (mk_data [] [PDict [(''id'', PStr ''v''), (''description'', PStr ''a variable''),
                           (''type'', PList [PNone])]] [] []) \<and>
   get_data_structure astext
     [Entry ''parameter'' (Group [(''v'', [text_node ''a parameter''])])] [] [] =
   Inr (mk_data [PDict [(''id'', PStr ''v''), (''description'', PStr ''a parameter'')]] [] [] [])"
  by code_simp

section \<open>Properties of the removal of empty values\<close>

lemma foldl_dict_del:
  "foldl (\<lambda>d kv. if \<not> truthy (snd kv) then dict_del (fst kv) d else d) d xs =
     filter (\<lambda>kv. \<forall>x \<in> set xs. fst x = fst kv \<longrightarrow> truthy (snd x)) d"
proof (induction xs arbitrary: d)
  case Nil
  then show ?case by simp
next
  case (Cons x xs)
  show ?case
    by (auto simp: Cons.IH dict_del_def intro!: filter_cong)
qed

lemma drop_empty_filter:
  "drop_empty data = filter (\<lambda>kv. \<forall>x \<in> set data. fst x = fst kv \<longrightarrow> truthy (snd x)) data"
  by (simp add: drop_empty_def foldl_dict_del)

lemma drop_empty_truthy: "map_of (drop_empty data) k = Some v \<Longrightarrow> truthy v"
proof -
  assume "map_of (drop_empty data) k = Some v"
  then have "(k, v) \<in> set (drop_empty data)" by (rule map_of_SomeD)
  then show "truthy v" by (auto simp: drop_empty_filter)
qed

lemma drop_empty_deletes:
  assumes "map_of data k = Some v" and "\<not> truthy v"
  shows "map_of (drop_empty data) k = None"
proof -
  from assms(1) have "(k, v) \<in> set data" by (rule map_of_SomeD)
  with assms(2) have "k \<notin> fst ` set (drop_empty data)"
    by (auto simp: drop_empty_filter)
  then show ?thesis by (simp add: map_of_eq_None_iff)
qed

lemma map_of_filter_keys:
  "P k \<Longrightarrow> map_of (filter (\<lambda>kv. P (fst kv)) d) k = map_of d k"
  by (induction d) auto

lemma drop_empty_keeps:
  assumes "distinct (map fst data)" and "map_of data k = Some v" and "truthy v"
  shows "map_of (drop_empty data) k = Some v"
proof -
  have kv: "(k, v) \<in> set data" using assms(2) by (rule map_of_SomeD)
  have "\<forall>x \<in> set data. fst x = k \<longrightarrow> truthy (snd x)"
  proof (intro ballI impI)
    fix x assume "x \<in> set data" "fst x = k"
    then have "(k, snd x) \<in> set data" by (metis prod.collapse)
    with kv assms(1) have "snd x = v" by (meson eq_key_imp_eq_value)
    with assms(3) show "truthy (snd x)" by simp
  qed
  then have "map_of (filter (\<lambda>kv. (\<lambda>k'. \<forall>x \<in> set data. fst x = k' \<longrightarrow> truthy (snd x)) (fst kv)) data) k
               = map_of data k"
    by (intro map_of_filter_keys)
  with assms(2) show ?thesis by (simp add: drop_empty_filter)
qed

lemma dict_set_keys: "fst ` set (dict_set k v d) = insert k (fst ` set d)"
  by (induction d) auto

lemma dict_set_distinct: "distinct (map fst d) \<Longrightarrow> distinct (map fst (dict_set k v d))"
proof (induction d)
  case Nil
  then show ?case by simp
next
  case (Cons a d)
  then show ?case using dict_set_keys [of k v d] by (auto simp: image_iff)
qed

lemma dict_update_distinct:
  "distinct (map fst d) \<Longrightarrow> distinct (map fst (dict_update d other))"
  unfolding dict_update_def
  by (induction other arbitrary: d) (simp_all add: dict_set_distinct)

lemma append_at_distinct:
  "append_at k v d = Inr d' \<Longrightarrow> distinct (map fst d) \<Longrightarrow> distinct (map fst d')"
  by (auto simp: append_at_def dict_set_distinct split: option.splits pyval.splits)

lemma add_attribute_distinct:
  "add_attribute a d = Inr d' \<Longrightarrow> distinct (map fst d) \<Longrightarrow> distinct (map fst d')"
  unfolding add_attribute_def Let_def
  by (cases "map_of d ''added_attribute''")
     (auto dest!: append_at_distinct simp: dict_set_distinct)

lemma efold_invariant:
  assumes step: "\<And>x s s'. f x s = Inr s' \<Longrightarrow> I s \<Longrightarrow> I s'"
  shows "efold f xs s = Inr s' \<Longrightarrow> I s \<Longrightarrow> I s'"
proof (induction xs arbitrary: s)
  case Nil
  then show ?case by simp
next
  case (Cons x xs)
  from Cons.prems(1) obtain s1 where a: "f x s = Inr s1" and b: "efold f xs s1 = Inr s'"
    by (cases "f x s") (auto simp: ebind_def)
  from step [OF a Cons.prems(2)] have "I s1" .
  from Cons.IH [OF b this] show ?case .
qed

lemma transform_child_distinct:
  assumes "transform_child tn ch st = Inr st'" and "distinct (map fst (snd st))"
  shows "distinct (map fst (snd st'))"
proof -
  obtain summary data where st: "st = (summary, data)" by (cases st)
  show ?thesis
  proof (cases ch)
    case (DescChild added)
    with assms st obtain data' where
      a: "efold add_attribute added data = Inr data'" and b: "st' = (summary, data')"
      by (cases "efold add_attribute added data") (auto simp: transform_child_def ebind_def)
    have step: "\<And>x s s'. add_attribute x s = Inr s' \<Longrightarrow> distinct (map fst s) \<Longrightarrow>
                  distinct (map fst s')"
      by (rule add_attribute_distinct)
    have "distinct (map fst data')"
      using efold_invariant [where I = "\<lambda>d. distinct (map fst d)" and f = add_attribute,
              OF step a] assms(2) st
      by simp
    with b show ?thesis by simp
  next
    case (FieldListChild entries types fo)
    with assms st show ?thesis
      by (cases "get_data_structure tn entries types fo")
         (auto simp: transform_child_def ebind_def dict_update_distinct)
  next
    case (SeeAlsoChild n)
    with assms st show ?thesis by (auto simp: transform_child_def dict_set_distinct)
  next
    case (AdmonitionChild title copy n)
    with assms st show ?thesis
      by (auto simp: transform_child_def dict_set_distinct split: if_splits)
  next
    case (OtherChild n)
    with assms st show ?thesis by (auto simp: transform_child_def)
  qed
qed

lemma children_distinct:
  "efold (transform_child tn) node ([], []) = Inr (summary, data) \<Longrightarrow> distinct (map fst data)"
proof -
  assume a: "efold (transform_child tn) node ([], []) = Inr (summary, data)"
  have step: "\<And>x s s'. transform_child tn x s = Inr s' \<Longrightarrow> distinct (map fst (snd s)) \<Longrightarrow>
                distinct (map fst (snd s'))"
    by (rule transform_child_distinct)
  have "distinct (map fst (snd (summary, data)))"
    using efold_invariant [where I = "\<lambda>st. distinct (map fst (snd st))" and f = "transform_child tn",
            OF step a]
    by simp
  then show ?thesis by simp
qed

text \<open>
  Claim C8. When the loop over the children has built the data block, \<^verbatim>\<open>transform_all\<close>
  stores under the identifier the block without its empty values: every value of the
  stored block is true, and a key of the block (other than \<^verbatim>\<open>summary\<close>, which is set
  after the loop) is stored with its value when the value is true and is absent when
  the value is empty. So a block whose \<^verbatim>\<open>parameters\<close>, \<^verbatim>\<open>variables\<close>, \<^verbatim>\<open>exceptions\<close> and
  \<^verbatim>\<open>return\<close> are empty is stored without these keys.
\<close>

theorem empty_values_elided:
  assumes "efold (transform_child tn) node ([], []) = Inr (summary, data)"
  shows "transform_all tn uid node info = Inr (info(uid \<mapsto> final_data summary data)) \<and>
         (\<forall>k v. map_of (final_data summary data) k = Some v \<longrightarrow> truthy v) \<and>
         (\<forall>k v. k \<noteq> ''summary'' \<and> map_of data k = Some v \<longrightarrow>
                map_of (final_data summary data) k = (if truthy v then Some v else None))"
proof (intro conjI allI impI)
  show "transform_all tn uid node info = Inr (info(uid \<mapsto> final_data summary data))"
    using assms by (simp add: transform_all_def)
next
  fix k v assume "map_of (final_data summary data) k = Some v"
  then show "truthy v" unfolding final_data_def by (rule drop_empty_truthy)
next
  fix k v assume kv: "k \<noteq> ''summary'' \<and> map_of data k = Some v"
  let ?d = "if summary \<noteq> [] then dict_set ''summary'' (PStr (str_join [CHR 0x0A] summary)) data
            else data"
  have di: "distinct (map fst ?d)"
    using children_distinct [OF assms] by (simp add: dict_set_distinct)
  have m: "map_of ?d k = Some v" using kv by (simp add: map_of_dict_set)
  show "map_of (final_data summary data) k = (if truthy v then Some v else None)"
  proof (cases "truthy v")
    case True
    with drop_empty_keeps [OF di m] show ?thesis by (simp add: final_data_def)
  next
    case False
    with drop_empty_deletes [OF m] show ?thesis by (simp add: final_data_def)
  qed
qed

theorem empty_values_elided_witness:
  "efold (transform_child astext) kids ([], []) = Inr ([''Hello.''], initial_data) \<and>
   transform_all astext (Some ''pkg.f'') kids Map.empty =
     Inr [Some ''pkg.f'' \<mapsto> [(''summary'', PStr ''Hello.'')]] \<and>
   map_of (final_data [''Hello.''] initial_data) ''parameters'' = None \<and>
   map_of (final_data [''Hello.''] initial_data) ''variables'' = None \<and>
   map_of (final_data [''Hello.''] initial_data) ''exceptions'' = None \<and>
   map_of (final_data [''Hello.''] initial_data) ''return'' = None"
proof -
  have h: "efold (transform_child astext) kids ([], []) = Inr ([''Hello.''], initial_data)"
    by code_simp
  have fd: "final_data [''Hello.''] initial_data = [(''summary'', PStr ''Hello.'')]"
    by code_simp
  note t = empty_values_elided [OF h, of "Some ''pkg.f''" Map.empty]
  have a: "transform_all astext (Some ''pkg.f'') kids Map.empty =
     Inr [Some ''pkg.f'' \<mapsto> [(''summary'', PStr ''Hello.'')]]"
    using t fd by simp
  have p: "map_of initial_data ''parameters'' = Some (PList [])"
          "map_of initial_data ''variables'' = Some (PList [])"
          "map_of initial_data ''exceptions'' = Some (PList [])"
          "map_of initial_data ''return'' = Some (PDict [])"
    by (simp_all add: initial_data_def)
  have b: "map_of (final_data [''Hello.''] initial_data) ''parameters'' = None"
    using t p(1) by auto
  have c: "map_of (final_data [''Hello.''] initial_data) ''variables'' = None"
    using t p(2) by auto
  have d: "map_of (final_data [''Hello.''] initial_data) ''exceptions'' = None"
    using t p(3) by auto
  have e: "map_of (final_data [''Hello.''] initial_data) ''return'' = None"
    using t p(4) by auto
  from h a b c d e show ?thesis by (intro conjI)
qed

end
